theory Spec2Isabelle
  imports Main
begin

section \<open>Values shared by both streams\<close>

text \<open>
  A Go byte slice is a list of bytes; Isabelle characters are bytes, so payloads are
  written as string literals. A nil slice and an empty slice are both the empty list.
\<close>

type_synonym bytes = string

text \<open>
  The error values that travel through the streaming code: \<open>io.EOF\<close>, the library's
  own \<open>WebSocketError\<close> with its \<open>Message\<close>, the close error of the websocket
  package with its close code, any other failure of the transport or of the msgpack
  codec, and an error wrapped by \<open>fmt.Errorf("<prefix>: %w", err)\<close>.
\<close>

datatype error =
    EOF
  | WebSocketError string
  | CloseError nat
  | OtherError string
  | Wrapf string error

text \<open>\<open>websocket.IsCloseError(err, codes...)\<close>: a close error whose code is listed.\<close>

fun IsCloseError :: "error \<Rightarrow> nat list \<Rightarrow> bool" where
  "IsCloseError (CloseError c) codes = (c \<in> set codes)"
| "IsCloseError _ codes = False"

definition CloseNormalClosure :: nat where
  "CloseNormalClosure = 1000"

definition CloseNoStatusReceived :: nat where
  "CloseNoStatusReceived = 1005"


section \<open>The duplex stream: connection, channels and goroutines\<close>

subsection \<open>Wire events\<close>

text \<open>\<open>wsResponse\<close>, the struct every inbound msgpack message is decoded into.\<close>

record wsResponse =
  Event :: string
  Audio :: bytes
  Reason :: string

text \<open>
  What one iteration of the receive loop obtains from \<open>conn.ReadMessage\<close> followed by
  \<open>msgpack.Unmarshal\<close>: the read fails, the message does not decode, or it decodes
  into a \<open>wsResponse\<close>.
\<close>

datatype inbound =
    ReadError error
  | Undecodable error
  | Frame wsResponse

text \<open>
  The msgpack encoder is library code; the outbound encodings are parameters. Each may
  fail, as \<open>msgpack.Marshal\<close> returns an error.
\<close>

record codec =
  marshal_start :: "error + bytes"
  marshal_text :: "string \<Rightarrow> error + bytes"
  marshal_stop :: "error + bytes"

subsection \<open>The connection\<close>

text \<open>
  The websocket connection as the code uses it: the messages written so far, the
  outcomes the transport will give to the coming \<open>WriteMessage\<close> calls (success once
  the list is used up), the inbound messages still to arrive, and how often \<open>Close\<close>
  was called.
\<close>

record conn =
  sent :: "bytes list"
  write_results :: "error option list"
  incoming :: "inbound list"
  conn_close_calls :: nat

definition conn_WriteMessage :: "bytes \<Rightarrow> conn \<Rightarrow> error option \<times> conn" where
  "conn_WriteMessage d c =
     (case write_results c of
        [] \<Rightarrow> (None, c\<lparr>sent := sent c @ [d]\<rparr>)
      | None # rs \<Rightarrow> (None, c\<lparr>sent := sent c @ [d], write_results := rs\<rparr>)
      | Some e # rs \<Rightarrow> (Some e, c\<lparr>write_results := rs\<rparr>))"

definition conn_Close :: "conn \<Rightarrow> conn" where
  "conn_Close c = c\<lparr>conn_close_calls := Suc (conn_close_calls c)\<rparr>"

subsection \<open>The session state\<close>

text \<open>
  Where the receive goroutine stands: in its loop, past a \<open>return\<close> with the deferred
  calls still to run, or gone.
\<close>

datatype recv_pc = Reading | Returning | Exited

text \<open>
  Everything the two goroutines and the caller share after a successful
  \<open>StreamWebSocket\<close>: the connection, the caller's \<open>textChan\<close>, the three channels
  the function creates (\<open>audioChan\<close> with capacity 100, \<open>errChan\<close> with capacity 1,
  \<open>doneChan\<close> which is only ever closed), the control state of both goroutines, and
  the fields \<open>buf\<close>, \<open>err\<close>, \<open>closed\<close> of the \<open>WebSocketAudioStream\<close> handed to
  the caller. The mutex of the stream serialises the caller's operations; each of them
  is one atomic function below.
\<close>

record session =
  conn :: conn
  textChan :: "string list"
  textChan_closed :: bool
  audioChan :: "bytes list"
  audioChan_closed :: bool
  errChan :: "error option"
  doneChan_closed :: bool
  send_exited :: bool
  recv_at :: recv_pc
  ws_buf :: bytes
  ws_err :: "error option"
  ws_closed :: bool

definition audioChan_cap :: nat where
  "audioChan_cap = 100"

text \<open>
  \<open>select { case errChan <- e: default: }\<close>: the error is stored when the single slot
  is free and dropped otherwise.
\<close>

definition offer_err :: "error \<Rightarrow> session \<Rightarrow> session" where
  "offer_err e s = (case errChan s of None \<Rightarrow> s\<lparr>errChan := Some e\<rparr> | Some _ \<Rightarrow> s)"

text \<open>
  A \<open>select\<close> with two receive cases takes the one that can proceed; when both can,
  Go chooses one of them at random. The choice is a parameter of every function that
  contains such a \<open>select\<close>.
\<close>

datatype pick = PickFirst | PickSecond

subsection \<open>Opening the session\<close>

text \<open>
  \<open>StreamWebSocket\<close> up to the point where the goroutines start. The dial outcome is
  a parameter. A failure is returned to the caller together with the connection as the
  function leaves it (none when the dial failed).
\<close>

definition StreamWebSocket ::
  "codec \<Rightarrow> error + conn \<Rightarrow> string list \<Rightarrow> bool \<Rightarrow> (error \<times> conn option) + session" where
  "StreamWebSocket cd dial texts texts_closed =
     (case dial of
        Inl e \<Rightarrow> Inl (Wrapf ''websocket dial failed'' e, None)
      | Inr c \<Rightarrow>
          (case marshal_start cd of
             Inl e \<Rightarrow> Inl (Wrapf ''failed to marshal start event'' e, Some (conn_Close c))
           | Inr startData \<Rightarrow>
               (case conn_WriteMessage startData c of
                  (Some e, c') \<Rightarrow> Inl (Wrapf ''failed to send start event'' e, Some (conn_Close c'))
                | (None, c') \<Rightarrow>
                    Inr \<lparr>conn = c', textChan = texts, textChan_closed = texts_closed,
                         audioChan = [], audioChan_closed = False, errChan = None,
                         doneChan_closed = False, send_exited = False, recv_at = Reading,
                         ws_buf = [], ws_err = None, ws_closed = False\<rparr>)))"

subsection \<open>The send goroutine\<close>

text \<open>The deferred function of the send goroutine: write the stop event if it encodes.\<close>

definition send_return :: "codec \<Rightarrow> session \<Rightarrow> session" where
  "send_return cd s =
     (case marshal_stop cd of
        Inr d \<Rightarrow> s\<lparr>conn := snd (conn_WriteMessage d (conn s)), send_exited := True\<rparr>
      | Inl _ \<Rightarrow> s\<lparr>send_exited := True\<rparr>)"

text \<open>
  One pass through the \<open>select\<close> of the send loop. The first case receives from
  \<open>textChan\<close> (ready when a text is queued or the channel is closed), the second from
  \<open>doneChan\<close> (ready once closed). When neither is ready the goroutine stays blocked.
\<close>

definition send_step :: "codec \<Rightarrow> pick \<Rightarrow> session \<Rightarrow> session" where
  "send_step cd p s =
     (if send_exited s then s
      else if (textChan s \<noteq> [] \<or> textChan_closed s) \<and> (\<not> doneChan_closed s \<or> p = PickFirst) then
        (case textChan s of
           [] \<Rightarrow> send_return cd s
         | t # ts \<Rightarrow>
             (case marshal_text cd t of
                Inl e \<Rightarrow>
                  send_return cd (offer_err (Wrapf ''failed to marshal text event'' e) (s\<lparr>textChan := ts\<rparr>))
              | Inr d \<Rightarrow>
                  (case conn_WriteMessage d (conn s) of
                     (Some e, c') \<Rightarrow>
                       send_return cd
                         (offer_err (Wrapf ''failed to send text'' e) (s\<lparr>textChan := ts, conn := c'\<rparr>))
                   | (None, c') \<Rightarrow> s\<lparr>textChan := ts, conn := c'\<rparr>)))
      else if doneChan_closed s then send_return cd s
      else s)"

subsection \<open>The receive goroutine\<close>

text \<open>
  The three deferred calls of the receive goroutine, in the order they run:
  \<open>close(doneChan)\<close>, \<open>conn.Close()\<close>, \<open>close(audioChan)\<close>.
\<close>

definition recv_deferred :: "session \<Rightarrow> session" where
  "recv_deferred s =
     s\<lparr>doneChan_closed := True, conn := conn_Close (conn s), audioChan_closed := True,
       recv_at := Exited\<rparr>"

text \<open>The body of the loop for a message that was read and decoded.\<close>

definition dispatch :: "wsResponse \<Rightarrow> inbound list \<Rightarrow> session \<Rightarrow> session" where
  "dispatch resp rest s =
     (if Event resp = ''audio'' then
        (if length (Audio resp) > 0 then
           (if length (audioChan s) < audioChan_cap
            then s\<lparr>conn := (conn s)\<lparr>incoming := rest\<rparr>, audioChan := audioChan s @ [Audio resp]\<rparr>
            else s)
         else s\<lparr>conn := (conn s)\<lparr>incoming := rest\<rparr>\<rparr>)
      else if Event resp = ''finish'' then
        (if Reason resp = ''error''
         then (offer_err (WebSocketError ''stream finished with error'')
                 (s\<lparr>conn := (conn s)\<lparr>incoming := rest\<rparr>\<rparr>))\<lparr>recv_at := Returning\<rparr>
         else s\<lparr>conn := (conn s)\<lparr>incoming := rest\<rparr>, recv_at := Returning\<rparr>)
      else s\<lparr>conn := (conn s)\<lparr>incoming := rest\<rparr>\<rparr>)"

text \<open>
  One step of the receive goroutine: one iteration of its loop, or the deferred calls
  after a \<open>return\<close>. With nothing to read the goroutine stays blocked in
  \<open>ReadMessage\<close>; with a full \<open>audioChan\<close> it stays blocked in the send, the message
  kept at the head of \<open>incoming\<close> until there is room.
\<close>

definition recv_step :: "session \<Rightarrow> session" where
  "recv_step s =
     (case recv_at s of
        Exited \<Rightarrow> s
      | Returning \<Rightarrow> recv_deferred s
      | Reading \<Rightarrow>
          (case incoming (conn s) of
             [] \<Rightarrow> s
           | ReadError e # rest \<Rightarrow>
               (if IsCloseError e [CloseNormalClosure, CloseNoStatusReceived]
                then s\<lparr>conn := (conn s)\<lparr>incoming := rest\<rparr>, recv_at := Returning\<rparr>
                else (offer_err e (s\<lparr>conn := (conn s)\<lparr>incoming := rest\<rparr>\<rparr>))\<lparr>recv_at := Returning\<rparr>)
           | Undecodable e # rest \<Rightarrow>
               (offer_err (Wrapf ''failed to decode response'' e)
                  (s\<lparr>conn := (conn s)\<lparr>incoming := rest\<rparr>\<rparr>))\<lparr>recv_at := Returning\<rparr>
           | Frame resp # rest \<Rightarrow> dispatch resp rest s))"

subsection \<open>The caller's side: \<open>WebSocketAudioStream\<close>\<close>

text \<open>
  An operation that contains a blocking \<open>select\<close> returns \<open>None\<close> for its result
  while neither case can proceed; the state is then unchanged and the caller is still
  inside the call.

  \<open>Next\<close>: the first case of its \<open>select\<close> receives from \<open>audioChan\<close> (ready when
  a chunk is queued or the channel is closed), the second from \<open>errChan\<close>.
\<close>

definition ws_Next :: "pick \<Rightarrow> session \<Rightarrow> bool option \<times> session" where
  "ws_Next p s =
     (if ws_closed s \<or> ws_err s \<noteq> None then (Some False, s)
      else if (audioChan s \<noteq> [] \<or> audioChan_closed s) \<and> (errChan s = None \<or> p = PickFirst) then
        (case audioChan s of
           [] \<Rightarrow> (Some False, s\<lparr>ws_closed := True\<rparr>)
         | chunk # rest \<Rightarrow> (Some True, s\<lparr>audioChan := rest, ws_buf := chunk\<rparr>))
      else if errChan s \<noteq> None then (Some False, s\<lparr>ws_err := errChan s, errChan := None\<rparr>)
      else (None, s))"

definition ws_Bytes :: "session \<Rightarrow> bytes" where
  "ws_Bytes s = ws_buf s"

definition ws_Err :: "session \<Rightarrow> error option" where
  "ws_Err s = ws_err s"

text \<open>
  \<open>Read(p)\<close> with \<open>len(p) = n\<close>; the bytes returned are those copied into \<open>p\<close>.
\<close>

definition ws_Read :: "pick \<Rightarrow> nat \<Rightarrow> session \<Rightarrow> (bytes \<times> error option) option \<times> session" where
  "ws_Read p n s =
     (if length (ws_buf s) > 0 then
        (Some (take n (ws_buf s), None), s\<lparr>ws_buf := drop n (ws_buf s)\<rparr>)
      else if (audioChan s \<noteq> [] \<or> audioChan_closed s) \<and> (errChan s = None \<or> p = PickFirst) then
        (case audioChan s of
           [] \<Rightarrow> (Some ([], Some EOF), s)
         | chunk # rest \<Rightarrow>
             (Some (take n chunk, None),
              if min n (length chunk) < length chunk
              then s\<lparr>audioChan := rest, ws_buf := drop n chunk\<rparr>
              else s\<lparr>audioChan := rest\<rparr>))
      else (case errChan s of
              Some e \<Rightarrow> (Some ([], Some e), s\<lparr>ws_err := Some e, errChan := None\<rparr>)
            | None \<Rightarrow> (None, s)))"

definition ws_Close :: "session \<Rightarrow> error option \<times> session" where
  "ws_Close s = (None, s\<lparr>ws_closed := True\<rparr>)"

subsection \<open>\<open>Collect\<close> running beside the goroutines\<close>

text \<open>
  \<open>Collect\<close> calls \<open>Next\<close> in a loop, appending \<open>Bytes()\<close> after each success; when
  \<open>Next\<close> returns false it returns \<open>(nil, s.err)\<close> if an error is recorded and the
  collected bytes with a nil error otherwise. It runs while the goroutines run, so it
  is a process of its own: \<open>collected\<close> is its local buffer and \<open>result\<close> what it returned,
  once it has.
\<close>

record collector =
  collected :: bytes
  result :: "(bytes \<times> error option) option"

definition new_collector :: collector where
  "new_collector = \<lparr>collected = [], result = None\<rparr>"

definition collect_step :: "pick \<Rightarrow> session \<times> collector \<Rightarrow> session \<times> collector" where
  "collect_step p sk =
     (let s = fst sk; k = snd sk in
      if result k \<noteq> None then sk
      else (case ws_Next p s of
              (None, s') \<Rightarrow> (s', k)
            | (Some True, s') \<Rightarrow> (s', k\<lparr>collected := collected k @ ws_Bytes s'\<rparr>)
            | (Some False, s') \<Rightarrow>
                (s', k\<lparr>result := Some (case ws_err s' of
                                          Some e \<Rightarrow> ([], Some e)
                                        | None \<Rightarrow> (collected k, None))\<rparr>)))"

text \<open>
  A schedule says which of the three parties moves next, and which case a \<open>select\<close>
  takes should both be ready. A party that is blocked, or has finished, does nothing on
  its turn.
\<close>

datatype action = SendStep pick | RecvStep | CollectStep pick

fun act :: "codec \<Rightarrow> action \<Rightarrow> session \<times> collector \<Rightarrow> session \<times> collector" where
  "act cd (SendStep p) sk = (send_step cd p (fst sk), snd sk)"
| "act cd RecvStep sk = (recv_step (fst sk), snd sk)"
| "act cd (CollectStep p) sk = collect_step p sk"

fun run :: "codec \<Rightarrow> action list \<Rightarrow> session \<times> collector \<Rightarrow> session \<times> collector" where
  "run cd [] sk = sk"
| "run cd (a # as) sk = run cd as (act cd a sk)"



text \<open>
  Reading a \<open>WebSocketAudioStream\<close> with buffers of the given sizes, one \<open>Read\<close>
  after the other, keeping what each call returned; the reading stops at the first call
  that blocks or reports an error.
\<close>

fun ws_reads :: "pick \<Rightarrow> nat list \<Rightarrow> session \<Rightarrow> bytes list \<times> session" where
  "ws_reads p [] s = ([], s)"
| "ws_reads p (n # ns) s =
     (case ws_Read p n s of
        (Some (d, None), s') \<Rightarrow> (d # fst (ws_reads p ns s'), snd (ws_reads p ns s'))
      | (_, s') \<Rightarrow> ([], s'))"


section \<open>The single-response stream\<close>

subsection \<open>The response body\<close>

text \<open>
  \<open>resp.Body\<close> is an \<open>io.ReadCloser\<close> supplied by the HTTP client or by a test. The
  model covers the finite bodies: the data still to come, cut into the segments in
  which the transport hands it over (one \<open>Read\<close> never crosses a segment boundary,
  and an empty segment is a \<open>Read\<close> that returns \<open>0, nil\<close>); the value reported
  once the data is used up (\<open>io.EOF\<close> or a failure); whether that value already comes
  with the last bytes, as \<open>io.Reader\<close> permits and the HTTP client does for a body of
  declared length, or only on the following call, as \<open>bytes.Reader\<close> does; what a
  \<open>Read\<close> after \<open>Close\<close> reports (nothing special when \<open>None\<close>); what \<open>Close\<close>
  returns; and how often \<open>Close\<close> was called.
\<close>

record body =
  segs :: "bytes list"
  final :: error
  piggyback :: bool
  after_close :: "error option"
  close_result :: "error option"
  body_close_calls :: nat

text \<open>\<open>Body.Read(p)\<close> with \<open>len(p) = n\<close>: the bytes stored in \<open>p\<close> and the error.\<close>

definition body_Read :: "nat \<Rightarrow> body \<Rightarrow> (bytes \<times> error option) \<times> body" where
  "body_Read n b =
     (if 0 < body_close_calls b \<and> after_close b \<noteq> None then (([], after_close b), b)
      else (case segs b of
              [] \<Rightarrow> (([], Some (final b)), b)
            | seg # rest \<Rightarrow>
                if n < length seg then ((take n seg, None), b\<lparr>segs := drop n seg # rest\<rparr>)
                else if rest = [] \<and> piggyback b then ((seg, Some (final b)), b\<lparr>segs := []\<rparr>)
                else ((seg, None), b\<lparr>segs := rest\<rparr>)))"

definition body_Close :: "body \<Rightarrow> error option \<times> body" where
  "body_Close b = (close_result b, b\<lparr>body_close_calls := Suc (body_close_calls b)\<rparr>)"

text \<open>
  \<open>io.Copy\<close> into a \<open>bytes.Buffer\<close> is library code: it reads until \<open>io.EOF\<close> or
  an error, appends the bytes of every call (also those that come with the error), and
  returns a nil error at \<open>io.EOF\<close>. Its buffer never has fewer than \<open>bytes.MinRead\<close>
  free bytes; the model reads with exactly that many.
\<close>

definition MinRead :: nat where
  "MinRead = 512"

function io_Copy :: "body \<Rightarrow> bytes \<Rightarrow> (bytes \<times> error option) \<times> body" where
  "io_Copy b out =
     (case body_Read MinRead b of
        ((p, None), b') \<Rightarrow> io_Copy b' (out @ p)
      | ((p, Some e), b') \<Rightarrow> ((out @ p, if e = EOF then None else Some e), b'))"
  by pat_completeness auto
termination
  by (relation "measure (\<lambda>(b, out). sum_list (map length (segs b)) + length (segs b))")
     (auto simp add: body_Read_def MinRead_def split: if_splits list.splits)

declare io_Copy.simps [simp del]

subsection \<open>\<open>AudioStream\<close>\<close>

record response =
  Body :: "body option"

record AudioStream =
  resp :: "response option"
  buf :: bytes
  chunkSize :: int
  err :: "error option"
  closed :: bool

text \<open>The run-time panics the methods can raise.\<close>

datatype panic = NilPointer | NegativeLen

definition newAudioStream :: "response option \<Rightarrow> AudioStream" where
  "newAudioStream r = \<lparr>resp = r, buf = [], chunkSize = 4096, err = None, closed = False\<rparr>"

text \<open>Evaluating \<open>s.resp.Body\<close> for a method call on it, and storing the body back.\<close>

definition resp_Body :: "AudioStream \<Rightarrow> panic + body" where
  "resp_Body s =
     (case resp s of
        None \<Rightarrow> Inl NilPointer
      | Some r \<Rightarrow> (case Body r of None \<Rightarrow> Inl NilPointer | Some b \<Rightarrow> Inr b))"

definition set_Body :: "body \<Rightarrow> AudioStream \<Rightarrow> AudioStream" where
  "set_Body b s = s\<lparr>resp := map_option (\<lambda>r. r\<lparr>Body := Some b\<rparr>) (resp s)\<rparr>"

text \<open>
  \<open>Next\<close>. The buffer is allocated with \<open>chunkSize\<close> zero bytes before the read and
  cut to the bytes read only when the read reports no error.
\<close>

definition as_Next :: "AudioStream \<Rightarrow> panic + (bool \<times> AudioStream)" where
  "as_Next s =
     (if closed s \<or> err s \<noteq> None then Inr (False, s)
      else if chunkSize s < 0 then Inl NegativeLen
      else (case resp_Body s of
              Inl pn \<Rightarrow> Inl pn
            | Inr b \<Rightarrow>
                (case body_Read (nat (chunkSize s)) b of
                   ((p, Some e), b') \<Rightarrow>
                     (let s1 = (set_Body b' s)
                                 \<lparr>buf := p @ replicate (nat (chunkSize s) - length p) (CHR 0x00)\<rparr>
                      in if e = EOF then Inr (False, s1\<lparr>closed := True\<rparr>)
                         else Inr (False, s1\<lparr>err := Some e\<rparr>))
                 | ((p, None), b') \<Rightarrow> Inr (True, (set_Body b' s)\<lparr>buf := p\<rparr>))))"

definition as_Bytes :: "AudioStream \<Rightarrow> bytes" where
  "as_Bytes s = buf s"

definition as_Err :: "AudioStream \<Rightarrow> error option" where
  "as_Err s = err s"

definition as_Close :: "AudioStream \<Rightarrow> error option \<times> AudioStream" where
  "as_Close s =
     (if closed s then (None, s)
      else (case resp s of
              None \<Rightarrow> (None, s\<lparr>closed := True\<rparr>)
            | Some r \<Rightarrow>
                (case Body r of
                   None \<Rightarrow> (None, s\<lparr>closed := True\<rparr>)
                 | Some b \<Rightarrow>
                     (fst (body_Close b), set_Body (snd (body_Close b)) (s\<lparr>closed := True\<rparr>)))))"

text \<open>\<open>Collect\<close>: \<open>io.Copy\<close> from the body, then the deferred \<open>Close\<close>.\<close>

definition as_Collect :: "AudioStream \<Rightarrow> panic + ((bytes \<times> error option) \<times> AudioStream)" where
  "as_Collect s =
     (case resp_Body s of
        Inl pn \<Rightarrow> Inl pn
      | Inr b \<Rightarrow>
          (case io_Copy b [] of
             ((data, Some e), b') \<Rightarrow> Inr (([], Some e), snd (as_Close (set_Body b' s)))
           | ((data, None), b') \<Rightarrow> Inr ((data, None), snd (as_Close (set_Body b' s)))))"

text \<open>\<open>Read(p)\<close> with \<open>len(p) = n\<close>.\<close>

definition as_Read :: "nat \<Rightarrow> AudioStream \<Rightarrow> panic + ((bytes \<times> error option) \<times> AudioStream)" where
  "as_Read n s =
     (if closed s then Inr (([], Some EOF), s)
      else (case resp_Body s of
              Inl pn \<Rightarrow> Inl pn
            | Inr b \<Rightarrow> Inr (fst (body_Read n b), set_Body (snd (body_Read n b)) s)))"

text \<open>
  The loop of the type's documentation, \<open>for stream.Next() { chunk := stream.Bytes() }\<close>,
  keeping the chunks in order. The fuel bounds the number of \<open>Next\<close> calls; \<open>None\<close>
  means the loop was still running when it ran out.
\<close>

fun drain :: "nat \<Rightarrow> AudioStream \<Rightarrow> bytes list \<Rightarrow> (panic + (bytes list \<times> AudioStream)) option" where
  "drain 0 s chunks = None"
| "drain (Suc fuel) s chunks =
     (case as_Next s of
        Inl pn \<Rightarrow> Some (Inl pn)
      | Inr (True, s') \<Rightarrow> drain fuel s' (chunks @ [as_Bytes s'])
      | Inr (False, s') \<Rightarrow> Some (Inr (chunks, s')))"

text \<open>Any sequence of method calls on one stream; a panic ends it.\<close>

datatype call = CallNext | CallBytes | CallErr | CallCollect | CallClose | CallRead nat

fun apply_call :: "call \<Rightarrow> AudioStream \<Rightarrow> panic + AudioStream" where
  "apply_call CallNext s = map_sum id snd (as_Next s)"
| "apply_call CallBytes s = Inr s"
| "apply_call CallErr s = Inr s"
| "apply_call CallCollect s = map_sum id snd (as_Collect s)"
| "apply_call CallClose s = Inr (snd (as_Close s))"
| "apply_call (CallRead n) s = map_sum id snd (as_Read n s)"

fun apply_calls :: "call list \<Rightarrow> AudioStream \<Rightarrow> panic + AudioStream" where
  "apply_calls [] s = Inr s"
| "apply_calls (c # cs) s = (case apply_call c s of Inl pn \<Rightarrow> Inl pn | Inr s' \<Rightarrow> apply_calls cs s')"

text \<open>How often the body of the stream's response has been closed.\<close>

definition body_closes :: "AudioStream \<Rightarrow> nat" where
  "body_closes s = (case resp_Body s of Inr b \<Rightarrow> body_close_calls b | Inl _ \<Rightarrow> 0)"


section \<open>The one-shot entry points\<close>

text \<open>
  The parameter structs. The \<open>float64\<close> fields are only copied and compared with
  zero, so any type with a zero stands for \<open>float64\<close>; \<open>Model\<close>, \<open>AudioFormat\<close>
  and \<open>LatencyMode\<close> are strings; a pointer field is an option.
\<close>

record ReferenceAudio =
  ref_Audio :: bytes
  ref_Text :: string

record 'f Prosody =
  Speed :: 'f
  Volume :: 'f

record 'f TTSConfig =
  cfg_Model :: string
  cfg_Format :: string
  cfg_SampleRate :: int
  cfg_MP3Bitrate :: int
  cfg_OpusBitrate :: int
  cfg_Normalize :: "bool option"
  cfg_ChunkLength :: int
  cfg_Latency :: string
  cfg_ReferenceID :: string
  cfg_References :: "ReferenceAudio list"
  cfg_Prosody :: "'f Prosody option"
  cfg_TopP :: 'f
  cfg_Temperature :: 'f

record 'f ConvertParams =
  cp_Text :: string
  cp_Model :: string
  cp_ReferenceID :: string
  cp_References :: "ReferenceAudio list"
  cp_Format :: string
  cp_Latency :: string
  cp_Speed :: 'f
  cp_Config :: "'f TTSConfig option"

record 'f StreamParams =
  sp_Text :: string
  sp_Model :: string
  sp_ReferenceID :: string
  sp_References :: "ReferenceAudio list"
  sp_Format :: string
  sp_Latency :: string
  sp_Speed :: 'f
  sp_Config :: "'f TTSConfig option"

record 'f ttsRequest =
  req_Text :: string
  req_ChunkLength :: int
  req_Format :: string
  req_SampleRate :: int
  req_MP3Bitrate :: int
  req_OpusBitrate :: int
  req_References :: "ReferenceAudio list"
  req_ReferenceID :: string
  req_Normalize :: "bool option"
  req_Latency :: string
  req_Prosody :: "'f Prosody option"
  req_TopP :: 'f
  req_Temperature :: 'f

record RequestOptions =
  Timeout :: int
  AdditionalHeaders :: "string \<rightharpoonup> string"
  AdditionalQueryParams :: "string \<rightharpoonup> string"

text \<open>\<open>getModel\<close>: the model of the parameters, else that of the configuration.\<close>

definition getModel :: "'f StreamParams \<Rightarrow> string" where
  "getModel params =
     (if sp_Model params \<noteq> '''' then sp_Model params
      else (case sp_Config params of
              Some cfg \<Rightarrow> (if cfg_Model cfg \<noteq> '''' then cfg_Model cfg else '''')
            | None \<Rightarrow> ''''))"

text \<open>The overrides \<open>buildRequest\<close> takes from a configuration, in the order of the code.\<close>

definition apply_config :: "('f::zero) TTSConfig \<Rightarrow> 'f ttsRequest \<Rightarrow> 'f ttsRequest" where
  "apply_config cfg req0 =
     (let req = (if cfg_Format cfg \<noteq> '''' \<and> req_Format req0 = ''''
                 then req0\<lparr>req_Format := cfg_Format cfg\<rparr> else req0);
          req = (if cfg_SampleRate cfg \<noteq> 0 then req\<lparr>req_SampleRate := cfg_SampleRate cfg\<rparr> else req);
          req = (if cfg_MP3Bitrate cfg \<noteq> 0 then req\<lparr>req_MP3Bitrate := cfg_MP3Bitrate cfg\<rparr> else req);
          req = (if cfg_OpusBitrate cfg \<noteq> 0 then req\<lparr>req_OpusBitrate := cfg_OpusBitrate cfg\<rparr> else req);
          req = (if cfg_Normalize cfg \<noteq> None then req\<lparr>req_Normalize := cfg_Normalize cfg\<rparr> else req);
          req = (if cfg_ChunkLength cfg \<noteq> 0 then req\<lparr>req_ChunkLength := cfg_ChunkLength cfg\<rparr> else req);
          req = (if cfg_Latency cfg \<noteq> '''' \<and> req_Latency req = ''''
                 then req\<lparr>req_Latency := cfg_Latency cfg\<rparr> else req);
          req = (if cfg_ReferenceID cfg \<noteq> '''' \<and> req_ReferenceID req = ''''
                 then req\<lparr>req_ReferenceID := cfg_ReferenceID cfg\<rparr> else req);
          req = (if length (cfg_References cfg) > 0 \<and> length (req_References req) = 0
                 then req\<lparr>req_References := cfg_References cfg\<rparr> else req);
          req = (if cfg_Prosody cfg \<noteq> None \<and> req_Prosody req = None
                 then req\<lparr>req_Prosody := cfg_Prosody cfg\<rparr> else req);
          req = (if cfg_TopP cfg \<noteq> 0 then req\<lparr>req_TopP := cfg_TopP cfg\<rparr> else req);
          req = (if cfg_Temperature cfg \<noteq> 0 then req\<lparr>req_Temperature := cfg_Temperature cfg\<rparr> else req)
      in req)"

definition buildRequest :: "('f::zero) StreamParams \<Rightarrow> 'f ttsRequest" where
  "buildRequest params =
     (let req = \<lparr>req_Text = sp_Text params, req_ChunkLength = 0, req_Format = sp_Format params,
                 req_SampleRate = 0, req_MP3Bitrate = 0, req_OpusBitrate = 0,
                 req_References = sp_References params, req_ReferenceID = sp_ReferenceID params,
                 req_Normalize = None, req_Latency = sp_Latency params, req_Prosody = None,
                 req_TopP = 0, req_Temperature = 0\<rparr>;
          req = (if sp_Speed params \<noteq> 0
                 then req\<lparr>req_Prosody := Some \<lparr>Speed = sp_Speed params, Volume = 0\<rparr>\<rparr> else req)
      in (case sp_Config params of Some cfg \<Rightarrow> apply_config cfg req | None \<Rightarrow> req))"

text \<open>
  \<open>Stream\<close>. The HTTP exchange, \<open>Client.doRequest\<close> with method POST and path
  \<open>/v1/tts\<close>, is the environment's: its outcome for a request and its options is a
  parameter. A nil \<open>params\<close> is dereferenced and panics.
\<close>

definition Stream ::
  "(('f::zero) ttsRequest \<Rightarrow> RequestOptions option \<Rightarrow> error + response)
     \<Rightarrow> 'f StreamParams option \<Rightarrow> panic + (error + AudioStream)" where
  "Stream doRequest params =
     (case params of
        None \<Rightarrow> Inl NilPointer
      | Some p \<Rightarrow>
          (let req = buildRequest p;
               model = getModel p;
               opts = (if model \<noteq> ''''
                       then Some \<lparr>Timeout = 0, AdditionalHeaders = [''model'' \<mapsto> model],
                                  AdditionalQueryParams = Map.empty\<rparr>
                       else None)
           in (case doRequest req opts of
                 Inl e \<Rightarrow> Inr (Inl e)
               | Inr r \<Rightarrow> Inr (Inr (newAudioStream (Some r))))))"

text \<open>\<open>Convert\<close>: copies the eight fields into a \<open>StreamParams\<close>, streams, collects.\<close>

definition Convert ::
  "(('f::zero) ttsRequest \<Rightarrow> RequestOptions option \<Rightarrow> error + response)
     \<Rightarrow> 'f ConvertParams option \<Rightarrow> panic + (bytes \<times> error option)" where
  "Convert doRequest params =
     (case params of
        None \<Rightarrow> Inl NilPointer
      | Some p \<Rightarrow>
          (case Stream doRequest
                  (Some \<lparr>sp_Text = cp_Text p, sp_Model = cp_Model p,
                         sp_ReferenceID = cp_ReferenceID p, sp_References = cp_References p,
                         sp_Format = cp_Format p, sp_Latency = cp_Latency p,
                         sp_Speed = cp_Speed p, sp_Config = cp_Config p\<rparr>) of
             Inl pn \<Rightarrow> Inl pn
           | Inr (Inl e) \<Rightarrow> Inr ([], Some e)
           | Inr (Inr stream) \<Rightarrow> map_sum id fst (as_Collect stream)))"

text \<open>
  The other side of the comparison, in the words of the claim: \<open>Stream\<close>, then
  \<open>Collect\<close> on the stream it returned; and two parameter structs that hold the same
  parameter set.
\<close>

definition Stream_then_Collect ::
  "(('f::zero) ttsRequest \<Rightarrow> RequestOptions option \<Rightarrow> error + response)
     \<Rightarrow> 'f StreamParams option \<Rightarrow> panic + (bytes \<times> error option)" where
  "Stream_then_Collect doRequest params =
     (case Stream doRequest params of
        Inl pn \<Rightarrow> Inl pn
      | Inr (Inl e) \<Rightarrow> Inr ([], Some e)
      | Inr (Inr stream) \<Rightarrow> map_sum id fst (as_Collect stream))"

definition same_params :: "'f ConvertParams option \<Rightarrow> 'f StreamParams option \<Rightarrow> bool" where
  "same_params cp sp =
     (case (cp, sp) of
        (None, None) \<Rightarrow> True
      | (Some c, Some s) \<Rightarrow>
          sp_Text s = cp_Text c \<and> sp_Model s = cp_Model c \<and> sp_ReferenceID s = cp_ReferenceID c
          \<and> sp_References s = cp_References c \<and> sp_Format s = cp_Format c
          \<and> sp_Latency s = cp_Latency c \<and> sp_Speed s = cp_Speed c \<and> sp_Config s = cp_Config c
      | _ \<Rightarrow> False)"


section \<open>Notions used in the statements\<close>


fun is_finish :: "string \<Rightarrow> inbound \<Rightarrow> bool" where
  "is_finish reason (Frame r) = (Event r = ''finish'' \<and> Reason r = reason)"
| "is_finish reason _ = False"


text \<open>
  A send path with nothing to report: every queued text encodes and no write of the
  connection is going to fail.
\<close>

definition text_encodes :: "codec \<Rightarrow> string \<Rightarrow> bool" where
  "text_encodes cd t = (case marshal_text cd t of Inr _ \<Rightarrow> True | Inl _ \<Rightarrow> False)"

definition healthy_send :: "codec \<Rightarrow> session \<Rightarrow> bool" where
  "healthy_send cd s = (write_results (conn s) = [] \<and> list_all (text_encodes cd) (textChan s))"



text \<open>Concrete values for the examples.\<close>

definition audio_frame :: "bytes \<Rightarrow> inbound" where
  "audio_frame c = Frame \<lparr>Event = ''audio'', Audio = c, Reason = []\<rparr>"

definition finish_frame :: "string \<Rightarrow> inbound" where
  "finish_frame r = Frame \<lparr>Event = ''finish'', Audio = [], Reason = r\<rparr>"

definition demo_codec :: codec where
  "demo_codec =
     \<lparr>marshal_start = Inr ''start'', marshal_text = (\<lambda>t. Inr (''text:'' @ t)),
      marshal_stop = Inr ''stop''\<rparr>"

definition dialled :: "inbound list \<Rightarrow> conn" where
  "dialled ms = \<lparr>sent = [], write_results = [], incoming = ms, conn_close_calls = 0\<rparr>"

definition opened :: "inbound list \<Rightarrow> string list \<Rightarrow> session" where
  "opened ms texts =
     \<lparr>conn = \<lparr>sent = [''start''], write_results = [], incoming = ms, conn_close_calls = 0\<rparr>,
      textChan = texts, textChan_closed = True,
      audioChan = [], audioChan_closed = False, errChan = None,
      doneChan_closed = False, send_exited = False, recv_at = Reading,
      ws_buf = [], ws_err = None, ws_closed = False\<rparr>"

definition demo_frames :: "inbound list" where
  "demo_frames = [audio_frame ''chunk1'', audio_frame ''chunk2'', finish_frame ''stop'']"

definition demo_schedule :: "action list" where
  "demo_schedule =
     [SendStep PickFirst, RecvStep, SendStep PickFirst, SendStep PickFirst, RecvStep,
      CollectStep PickFirst, RecvStep, CollectStep PickFirst, RecvStep, CollectStep PickFirst]"

definition unknown_frame :: inbound where
  "unknown_frame = Frame \<lparr>Event = ''log'', Audio = [], Reason = []\<rparr>"

definition broken_start_codec :: codec where
  "broken_start_codec = demo_codec\<lparr>marshal_start := Inl (OtherError ''msgpack: unsupported type'')\<rparr>"

definition broken_text_codec :: codec where
  "broken_text_codec = demo_codec\<lparr>marshal_text := (\<lambda>t. Inl (OtherError ''msgpack: encode failed''))\<rparr>"


text \<open>
  Two bodies of the kinds the stream meets: the \<open>bytes.Reader\<close> of the tests, and
  the HTTP client's body of declared length, which reports \<open>io.EOF\<close> with the last
  bytes and refuses reads once closed.
\<close>

definition bytes_reader :: "bytes \<Rightarrow> body" where
  "bytes_reader d =
     \<lparr>segs = (if d = [] then [] else [d]), final = EOF, piggyback = False, after_close = None,
      close_result = None, body_close_calls = 0\<rparr>"

definition declared_length_body :: "bytes \<Rightarrow> body" where
  "declared_length_body d =
     \<lparr>segs = [d], final = EOF, piggyback = True,
      after_close = Some (OtherError ''http: read on closed response body''),
      close_result = None, body_close_calls = 0\<rparr>"

text \<open>
  The invariant of a stream made by \<open>newAudioStream\<close> over a response with a body:
  the body has been closed at most once, and not at all while the flag is unset.
\<close>

definition closes_at_most_once :: "AudioStream \<Rightarrow> bool" where
  "closes_at_most_once s =
     (case resp_Body s of
        Inr b \<Rightarrow> 0 \<le> chunkSize s \<and> (if closed s then body_close_calls b \<le> 1 else body_close_calls b = 0)
      | Inl _ \<Rightarrow> False)"

text \<open>
  A body whose reads are not refused; the size that every read with a non-empty buffer
  reduces; and the error a complete drain ends with (none at \<open>io.EOF\<close>).
\<close>

definition readable :: "body \<Rightarrow> bool" where
  "readable b = (body_close_calls b = 0 \<or> after_close b = None)"

definition body_size :: "body \<Rightarrow> nat" where
  "body_size b = sum_list (map length (segs b)) + length (segs b)"

definition end_error :: "body \<Rightarrow> error option" where
  "end_error b = (if final b = EOF then None else Some (final b))"


text \<open>
  A single-response stream that reads four bytes at a time, and a duplex session with
  chunks already queued for the caller.
\<close>

definition small_chunks :: AudioStream where
  "small_chunks = (newAudioStream (Some \<lparr>Body = Some (bytes_reader ''abcdef'')\<rparr>))\<lparr>chunkSize := 4\<rparr>"

definition queued :: "bytes list \<Rightarrow> session" where
  "queued chunks = (opened [] [])\<lparr>audioChan := chunks\<rparr>"


text \<open>
  The messages that fragments encode to; what the send goroutine has written in terms
  of the fragments the caller produced (\<open>pre\<close> is what was written before it
  started); the same for a send path on which nothing fails.
\<close>

definition encode_all :: "codec \<Rightarrow> string list \<Rightarrow> bytes list" where
  "encode_all cd ts = map (\<lambda>t. case marshal_text cd t of Inr d \<Rightarrow> d | Inl _ \<Rightarrow> []) ts"

definition wrote_prefix :: "codec \<Rightarrow> bytes list \<Rightarrow> string list \<Rightarrow> session \<Rightarrow> bool" where
  "wrote_prefix cd pre texts s =
     (\<exists>k\<le>length texts.
        if send_exited s
        then sent (conn s) = pre @ encode_all cd (take k texts)
             \<or> (\<exists>d. marshal_stop cd = Inr d \<and> sent (conn s) = pre @ encode_all cd (take k texts) @ [d])
        else sent (conn s) = pre @ encode_all cd (take k texts) \<and> textChan s = drop k texts)"

definition wrote_all :: "codec \<Rightarrow> bytes list \<Rightarrow> string list \<Rightarrow> session \<Rightarrow> bool" where
  "wrote_all cd pre texts s =
     (healthy_send cd s
      \<and> (if send_exited s
         then doneChan_closed s
              \<or> (\<exists>d. marshal_stop cd = Inr d \<and> sent (conn s) = pre @ encode_all cd texts @ [d])
              \<or> (\<exists>e. marshal_stop cd = Inl e \<and> sent (conn s) = pre @ encode_all cd texts)
         else \<exists>k\<le>length texts. sent (conn s) = pre @ encode_all cd (take k texts) \<and> textChan s = drop k texts))"

definition send_first_schedule :: "action list" where
  "send_first_schedule = [SendStep PickFirst, RecvStep, SendStep PickFirst, SendStep PickFirst]"

text \<open>
  The first error that enters the slot during a run; the state of a stream on which
  the error \<open>e\<close> is queued or recorded; a result of \<open>Collect\<close> that carries the
  recorded error; and the states of a session in which a second error is queued after
  the first was read.
\<close>

fun first_published :: "codec \<Rightarrow> action list \<Rightarrow> session \<times> collector \<Rightarrow> error option" where
  "first_published cd [] sk = errChan (fst sk)"
| "first_published cd (a # as) sk =
     (case errChan (fst sk) of
        Some e \<Rightarrow> Some e
      | None \<Rightarrow> first_published cd as (act cd a sk))"

definition reset_session :: session where
  "reset_session =
     (opened [] [''Hello''])
       \<lparr>conn := \<lparr>sent = [''start''],
                 write_results = [Some (OtherError ''use of closed network connection'')],
                 incoming = [ReadError (OtherError ''connection reset'')],
                 conn_close_calls = 0\<rparr>\<rparr>"

definition after_first_read :: session where
  "after_first_read = snd (ws_Read PickSecond 8 (recv_step reset_session))"

definition after_send_fails :: session where
  "after_send_fails = send_step demo_codec PickFirst (recv_step after_first_read)"

definition holds_error :: "error \<Rightarrow> session \<Rightarrow> bool" where
  "holds_error e s = (ws_err s = None \<and> errChan s = Some e \<or> ws_err s = Some e)"

definition result_from_err :: "session \<times> collector \<Rightarrow> bool" where
  "result_from_err sk =
     (case result (snd sk) of
        Some (d, Some e) \<Rightarrow> ws_err (fst sk) = Some e
      | _ \<Rightarrow> True)"

definition reset_frames :: "inbound list" where
  "reset_frames = [ReadError (OtherError ''connection reset'')]"


text \<open>
  Parameters for the one-shot calls, their counterpart for \<open>Stream\<close>, and an exchange
  that answers with audio unless the text is empty.
\<close>

definition hello_params :: "int ConvertParams" where
  "hello_params =
     \<lparr>cp_Text = ''Hello'', cp_Model = ''s1'', cp_ReferenceID = [], cp_References = [],
      cp_Format = ''mp3'', cp_Latency = [], cp_Speed = 0, cp_Config = None\<rparr>"

definition hello_stream_params :: "int StreamParams" where
  "hello_stream_params =
     \<lparr>sp_Text = ''Hello'', sp_Model = ''s1'', sp_ReferenceID = [], sp_References = [],
      sp_Format = ''mp3'', sp_Latency = [], sp_Speed = 0, sp_Config = None\<rparr>"

definition audio_server :: "int ttsRequest \<Rightarrow> RequestOptions option \<Rightarrow> error + response" where
  "audio_server req opts =
     (if req_Text req = [] then Inl (OtherError ''422 Unprocessable Entity'')
      else Inr \<lparr>Body = Some (declared_length_body (''audio:'' @ req_Text req))\<rparr>)"


section \<open>The duplex stream: a session that ends with a stop finish\<close>

lemma conn_WriteMessage_healthy:
  "write_results c = [] \<Longrightarrow> conn_WriteMessage d c = (None, c\<lparr>sent := sent c @ [d]\<rparr>)"
  by (simp add: conn_WriteMessage_def)

lemma send_return_fields:
  assumes "write_results (conn s) = []"
  shows "errChan (send_return cd s) = errChan s"
    and "audioChan (send_return cd s) = audioChan s"
    and "audioChan_closed (send_return cd s) = audioChan_closed s"
    and "recv_at (send_return cd s) = recv_at s"
    and "incoming (conn (send_return cd s)) = incoming (conn s)"
    and "write_results (conn (send_return cd s)) = []"
    and "textChan (send_return cd s) = textChan s"
    and "ws_err (send_return cd s) = ws_err s"
    and "ws_closed (send_return cd s) = ws_closed s"
    and "ws_buf (send_return cd s) = ws_buf s"
  using assms by (simp_all add: send_return_def conn_WriteMessage_healthy split: sum.splits)

lemma send_step_fields:
  assumes "healthy_send cd s"
  shows "errChan (send_step cd p s) = errChan s"
    and "audioChan (send_step cd p s) = audioChan s"
    and "audioChan_closed (send_step cd p s) = audioChan_closed s"
    and "recv_at (send_step cd p s) = recv_at s"
    and "incoming (conn (send_step cd p s)) = incoming (conn s)"
    and "ws_err (send_step cd p s) = ws_err s"
    and "ws_closed (send_step cd p s) = ws_closed s"
    and "ws_buf (send_step cd p s) = ws_buf s"
    and "healthy_send cd (send_step cd p s)"
  using assms
  by (auto simp add: send_step_def healthy_send_def text_encodes_def send_return_fields conn_WriteMessage_healthy
      split: list.splits sum.splits)



lemma healthy_send_conn:
  "write_results c' = write_results (conn s) \<Longrightarrow> healthy_send cd (s\<lparr>conn := c'\<rparr>) = healthy_send cd s"
  by (simp add: healthy_send_def)








lemma run_append: "run cd (as @ bs) sk = run cd bs (run cd as sk)"
  by (induction as arbitrary: sk) simp_all











lemma StreamWebSocket_session:
  assumes "StreamWebSocket cd (Inr c) texts texts_closed = Inr s0"
  shows "incoming (conn s0) = incoming c" and "textChan s0 = texts"
    and "audioChan s0 = []" and "\<not> audioChan_closed s0" and "errChan s0 = None"
    and "recv_at s0 = Reading" and "ws_err s0 = None" and "\<not> ws_closed s0" and "ws_buf s0 = []"
    and "conn_close_calls (conn s0) = conn_close_calls c"
  using assms
  by (auto simp add: StreamWebSocket_def conn_WriteMessage_def
      split: sum.splits prod.splits option.splits list.splits)



lemma opened_demo:
  "StreamWebSocket demo_codec (Inr (dialled ms)) texts True = Inr (opened ms texts)"
  by (simp add: StreamWebSocket_def demo_codec_def dialled_def opened_def conn_WriteMessage_def)

lemma healthy_opened: "healthy_send demo_codec (opened ms texts)"
  by (simp add: healthy_send_def opened_def list_all_iff text_encodes_def demo_codec_def)



section \<open>The duplex stream: error finish, unknown events, encode failures\<close>

lemmas duplex_eval =
  opened_def new_collector_def audio_frame_def finish_frame_def unknown_frame_def demo_codec_def
  send_step_def send_return_def conn_WriteMessage_def recv_step_def dispatch_def recv_deferred_def
  conn_Close_def collect_step_def ws_Next_def ws_Bytes_def audioChan_cap_def offer_err_def
  CloseNormalClosure_def CloseNoStatusReceived_def dialled_def

text \<open>
  C2. The first inbound message is a finish frame with reason error. The receive
  goroutine queues the error and returns, and its deferred calls close \<open>audioChan\<close>.
  When both have happened before \<open>Collect\<close> reaches the \<open>select\<close> of its first
  \<open>Next\<close>, both cases of the \<open>select\<close> are ready; taking the closed \<open>audioChan\<close>
  makes \<open>Collect\<close> return no bytes and a nil error, the queued error never read.
\<close>

theorem C2_finish_error_lost_when_both_ready:
  "StreamWebSocket demo_codec (Inr (dialled [finish_frame ''error''])) [] True
     = Inr (opened [finish_frame ''error''] [])
   \<and> result (snd (run demo_codec [RecvStep, RecvStep, CollectStep PickFirst]
         (opened [finish_frame ''error''] [], new_collector)))
       = Some ([], None)
   \<and> errChan (fst (run demo_codec [RecvStep, RecvStep, CollectStep PickFirst]
         (opened [finish_frame ''error''] [], new_collector)))
       = Some (WebSocketError ''stream finished with error'')"
  by (simp add: opened_demo) (simp add: duplex_eval)

lemma finish_error_surfaced_otherwise:
  "result (snd (run demo_codec [RecvStep, RecvStep, CollectStep PickSecond]
      (opened [finish_frame ''error''] [], new_collector)))
     = Some ([], Some (WebSocketError ''stream finished with error''))"
  "result (snd (run demo_codec [CollectStep p, RecvStep, CollectStep p]
      (opened [finish_frame ''error''] [], new_collector)))
     = Some ([], Some (WebSocketError ''stream finished with error''))"
  by (simp_all add: duplex_eval)

text \<open>
  C3, as stated, fails: a decoded frame with an event the code does not know is passed
  over. No error is queued, the receive loop goes on with the next message, and
  \<open>Collect\<close> returns with a nil error.
\<close>

theorem C3_counterexample:
  "errChan (recv_step (opened [unknown_frame, finish_frame ''stop''] [])) = None
   \<and> recv_at (recv_step (opened [unknown_frame, finish_frame ''stop''] [])) = Reading
   \<and> recv_step (opened [unknown_frame, finish_frame ''stop''] []) = opened [finish_frame ''stop''] []
   \<and> result (snd (run demo_codec [RecvStep, RecvStep, RecvStep, CollectStep PickSecond]
         (opened [unknown_frame, finish_frame ''stop''] [], new_collector)))
       = Some ([], None)"
  by (simp add: duplex_eval)

text \<open>
  C3, amended. A message that does not decode is a decode failure: the receive path
  offers the wrapped error to \<open>errChan\<close> and returns. A decoded frame whose event is
  neither audio nor finish is passed over, and so is an audio frame with an empty
  payload: the message is consumed and nothing else changes.
\<close>

theorem C3_undecodable_fails_unknown_is_skipped:
  assumes "recv_at s = Reading" and "incoming (conn s) = m # rest"
  shows "(\<forall>e. m = Undecodable e \<longrightarrow>
            recv_step s = (offer_err (Wrapf ''failed to decode response'' e)
                             (s\<lparr>conn := (conn s)\<lparr>incoming := rest\<rparr>\<rparr>))\<lparr>recv_at := Returning\<rparr>)
       \<and> (\<forall>r. m = Frame r \<and> Event r \<noteq> ''audio'' \<and> Event r \<noteq> ''finish'' \<longrightarrow>
            recv_step s = s\<lparr>conn := (conn s)\<lparr>incoming := rest\<rparr>\<rparr>)
       \<and> (\<forall>r. m = Frame r \<and> Event r = ''audio'' \<and> Audio r = [] \<longrightarrow>
            recv_step s = s\<lparr>conn := (conn s)\<lparr>incoming := rest\<rparr>\<rparr>)"
  using assms by (simp add: recv_step_def dispatch_def)

theorem C3_witness:
  "recv_at (opened [Undecodable (OtherError ''msgpack: invalid code''), finish_frame ''stop''] []) = Reading
   \<and> errChan (recv_step (opened [Undecodable (OtherError ''msgpack: invalid code''), finish_frame ''stop''] []))
       = Some (Wrapf ''failed to decode response'' (OtherError ''msgpack: invalid code''))
   \<and> recv_at (recv_step (opened [Undecodable (OtherError ''msgpack: invalid code''), finish_frame ''stop''] []))
       = Returning
   \<and> recv_step (opened [unknown_frame, finish_frame ''stop''] []) = opened [finish_frame ''stop''] []
   \<and> recv_step (opened [audio_frame [], finish_frame ''stop''] []) = opened [finish_frame ''stop''] []"
proof -
  let ?u = "opened [Undecodable (OtherError ''msgpack: invalid code''), finish_frame ''stop''] []"
  let ?k = "opened [unknown_frame, finish_frame ''stop''] []"
  let ?a = "opened [audio_frame [], finish_frame ''stop''] []"
  have u: "recv_at ?u = Reading"
    "incoming (conn ?u) = Undecodable (OtherError ''msgpack: invalid code'') # [finish_frame ''stop'']"
    by (simp_all add: opened_def)
  have k: "recv_at ?k = Reading" "incoming (conn ?k) = unknown_frame # [finish_frame ''stop'']"
    by (simp_all add: opened_def)
  have a: "recv_at ?a = Reading" "incoming (conn ?a) = audio_frame [] # [finish_frame ''stop'']"
    by (simp_all add: opened_def)
  have 1: "recv_step ?u = (offer_err (Wrapf ''failed to decode response'' (OtherError ''msgpack: invalid code''))
                             (?u\<lparr>conn := (conn ?u)\<lparr>incoming := [finish_frame ''stop'']\<rparr>\<rparr>))\<lparr>recv_at := Returning\<rparr>"
    using C3_undecodable_fails_unknown_is_skipped[OF u] by blast
  have 2: "recv_step ?k = ?k\<lparr>conn := (conn ?k)\<lparr>incoming := [finish_frame ''stop'']\<rparr>\<rparr>"
    using C3_undecodable_fails_unknown_is_skipped[OF k] by (simp add: unknown_frame_def)
  have 3: "recv_step ?a = ?a\<lparr>conn := (conn ?a)\<lparr>incoming := [finish_frame ''stop'']\<rparr>\<rparr>"
    using C3_undecodable_fails_unknown_is_skipped[OF a] by (simp add: audio_frame_def)
  show ?thesis
    unfolding 1 2 3 by (simp add: opened_def offer_err_def)
qed

text \<open>
  C4, as stated, fails for the start event: when it does not encode, \<open>StreamWebSocket\<close>
  closes the connection itself and returns the error to its caller. There is no stream,
  no \<open>errChan\<close>, and no receive path to do the closing.
\<close>

theorem C4_counterexample:
  "StreamWebSocket broken_start_codec (Inr (dialled [])) [''Hello''] True
     = Inl (Wrapf ''failed to marshal start event'' (OtherError ''msgpack: unsupported type''),
            Some \<lparr>sent = [], write_results = [], incoming = [], conn_close_calls = 1\<rparr>)"
  by (simp add: StreamWebSocket_def broken_start_codec_def demo_codec_def dialled_def conn_Close_def)

lemma send_return_close_calls:
  "conn_close_calls (conn (send_return cd s)) = conn_close_calls (conn s)"
  by (simp add: send_return_def conn_WriteMessage_def split: sum.splits list.splits option.splits)

lemma offer_err_conn: "conn (offer_err e s) = conn s"
  by (simp add: offer_err_def split: option.splits)

lemma send_return_errChan: "errChan (send_return cd s) = errChan s"
  by (simp add: send_return_def split: sum.splits)

lemma send_return_exited: "send_exited (send_return cd s)"
  by (simp add: send_return_def split: sum.splits)

lemma send_return_textChan: "textChan (send_return cd s) = textChan s"
  by (simp add: send_return_def split: sum.splits)

lemma offer_err_fields:
  "textChan (offer_err e s) = textChan s" "errChan (offer_err e (s\<lparr>textChan := ts\<rparr>)) = errChan (offer_err e s)"
  "errChan (offer_err e (s\<lparr>conn := c\<rparr>)) = errChan (offer_err e s)"
  by (simp_all add: offer_err_def split: option.splits)

lemma send_step_close_calls:
  "conn_close_calls (conn (send_step cd p s)) = conn_close_calls (conn s)"
  by (simp add: send_step_def send_return_close_calls offer_err_conn conn_WriteMessage_def
      split: list.splits sum.splits option.splits prod.splits)

text \<open>
  C4, amended. A text event that does not encode is offered to \<open>errChan\<close>, wrapped, in
  the way the receive path offers a failed read; the send goroutine then returns, its
  deferred stop event still written. No step of the send goroutine closes the
  connection. A start event that does not encode is returned by \<open>StreamWebSocket\<close>
  itself, after it closed the connection.
\<close>

theorem C4_text_encode_failure_is_offered:
  "(\<not> send_exited s \<and> textChan s = t # ts \<and> (\<not> doneChan_closed s \<or> p = PickFirst)
      \<and> marshal_text cd t = Inl e \<longrightarrow>
        send_step cd p s
          = send_return cd (offer_err (Wrapf ''failed to marshal text event'' e) (s\<lparr>textChan := ts\<rparr>))
        \<and> send_exited (send_step cd p s)
        \<and> errChan (send_step cd p s) = errChan (offer_err (Wrapf ''failed to marshal text event'' e) s))
   \<and> (recv_at s = Reading \<and> incoming (conn s) = ReadError e' # rest
      \<and> \<not> IsCloseError e' [CloseNormalClosure, CloseNoStatusReceived] \<longrightarrow>
        errChan (recv_step s) = errChan (offer_err e' s))
   \<and> conn_close_calls (conn (send_step cd p s)) = conn_close_calls (conn s)
   \<and> (marshal_start cd = Inl e \<longrightarrow>
        StreamWebSocket cd (Inr c) texts texts_closed
          = Inl (Wrapf ''failed to marshal start event'' e, Some (conn_Close c)))"
proof (intro conjI impI)
  assume a: "\<not> send_exited s \<and> textChan s = t # ts \<and> (\<not> doneChan_closed s \<or> p = PickFirst)
      \<and> marshal_text cd t = Inl e"
  then show st: "send_step cd p s
          = send_return cd (offer_err (Wrapf ''failed to marshal text event'' e) (s\<lparr>textChan := ts\<rparr>))"
    by (auto simp add: send_step_def)
  show "send_exited (send_step cd p s)" unfolding st by (rule send_return_exited)
  show "errChan (send_step cd p s) = errChan (offer_err (Wrapf ''failed to marshal text event'' e) s)"
    unfolding st by (simp add: send_return_errChan offer_err_fields)
next
  assume "recv_at s = Reading \<and> incoming (conn s) = ReadError e' # rest
      \<and> \<not> IsCloseError e' [CloseNormalClosure, CloseNoStatusReceived]"
  then show "errChan (recv_step s) = errChan (offer_err e' s)"
    by (simp add: recv_step_def offer_err_fields)
next
  show "conn_close_calls (conn (send_step cd p s)) = conn_close_calls (conn s)"
    by (rule send_step_close_calls)
next
  assume "marshal_start cd = Inl e"
  then show "StreamWebSocket cd (Inr c) texts texts_closed
          = Inl (Wrapf ''failed to marshal start event'' e, Some (conn_Close c))"
    by (simp add: StreamWebSocket_def)
qed

theorem C4_witness:
  "\<not> send_exited (opened [] [''Hello''])
   \<and> textChan (opened [] [''Hello'']) = [''Hello'']
   \<and> marshal_text broken_text_codec ''Hello'' = Inl (OtherError ''msgpack: encode failed'')
   \<and> send_exited (send_step broken_text_codec PickFirst (opened [] [''Hello'']))
   \<and> errChan (send_step broken_text_codec PickFirst (opened [] [''Hello'']))
       = Some (Wrapf ''failed to marshal text event'' (OtherError ''msgpack: encode failed''))
   \<and> sent (conn (send_step broken_text_codec PickFirst (opened [] [''Hello''])))
       = [''start'', ''stop'']
   \<and> conn_close_calls (conn (send_step broken_text_codec PickFirst (opened [] [''Hello'']))) = 0
   \<and> errChan (recv_step (opened [ReadError (OtherError ''connection reset'')] []))
       = Some (OtherError ''connection reset'')
   \<and> StreamWebSocket broken_start_codec (Inr (dialled [finish_frame ''stop''])) [] False
       = Inl (Wrapf ''failed to marshal start event'' (OtherError ''msgpack: unsupported type''),
              Some (conn_Close (dialled [finish_frame ''stop''])))"
proof -
  let ?s = "opened [] [''Hello'']"
  let ?r = "opened [ReadError (OtherError ''connection reset'')] []"
  let ?e = "OtherError ''msgpack: encode failed''"
  have h1: "\<not> send_exited ?s" "textChan ?s = ''Hello'' # []" "\<not> doneChan_closed ?s"
    "marshal_text broken_text_codec ''Hello'' = Inl ?e"
    by (simp_all add: opened_def broken_text_codec_def demo_codec_def)
  have h2: "recv_at ?r = Reading" "incoming (conn ?r) = ReadError (OtherError ''connection reset'') # []"
    "\<not> IsCloseError (OtherError ''connection reset'') [CloseNormalClosure, CloseNoStatusReceived]"
    by (simp_all add: opened_def)
  have h3: "marshal_start broken_start_codec = Inl (OtherError ''msgpack: unsupported type'')"
    by (simp add: broken_start_codec_def demo_codec_def)
  note t1 = C4_text_encode_failure_is_offered
              [of ?s "''Hello''" "[]" PickFirst broken_text_codec ?e]
  note t2 = C4_text_encode_failure_is_offered
              [of ?r _ _ _ _ _ "OtherError ''connection reset''" "[]"]
  note t3 = C4_text_encode_failure_is_offered
              [of _ _ _ _ broken_start_codec "OtherError ''msgpack: unsupported type''" _ _
                  "dialled [finish_frame ''stop'']" "[]" False]
  have a: "send_step broken_text_codec PickFirst ?s
             = send_return broken_text_codec
                 (offer_err (Wrapf ''failed to marshal text event'' ?e) (?s\<lparr>textChan := []\<rparr>))"
    and b: "send_exited (send_step broken_text_codec PickFirst ?s)"
    and c: "conn_close_calls (conn (send_step broken_text_codec PickFirst ?s)) = conn_close_calls (conn ?s)"
    using t1 h1 by blast+
  have d: "errChan (recv_step ?r) = errChan (offer_err (OtherError ''connection reset'') ?r)"
    using t2 h2 by blast
  have e: "StreamWebSocket broken_start_codec (Inr (dialled [finish_frame ''stop''])) [] False
       = Inl (Wrapf ''failed to marshal start event'' (OtherError ''msgpack: unsupported type''),
              Some (conn_Close (dialled [finish_frame ''stop''])))"
    using t3 h3 by blast
  have a': "errChan (send_step broken_text_codec PickFirst ?s)
              = Some (Wrapf ''failed to marshal text event'' ?e)"
    "sent (conn (send_step broken_text_codec PickFirst ?s)) = [''start'', ''stop'']"
    unfolding a
    by (simp_all add: send_return_def offer_err_def opened_def broken_text_codec_def demo_codec_def
        conn_WriteMessage_def)
  have c': "conn_close_calls (conn (send_step broken_text_codec PickFirst ?s)) = 0"
    unfolding c by (simp add: opened_def)
  have d': "errChan (recv_step ?r) = Some (OtherError ''connection reset'')"
    unfolding d by (simp add: offer_err_def opened_def)
  from h1 b a' c' d' e show ?thesis by simp
qed

section \<open>The single-response stream: closing\<close>

lemmas as_eval =
  newAudioStream_def as_Next_def as_Close_def as_Read_def as_Collect_def as_Bytes_def resp_Body_def
  set_Body_def body_Read_def body_Close_def body_closes_def bytes_reader_def declared_length_body_def
  MinRead_def

lemma close_after_end_of_body_leaves_body_open:
  "map_sum id (\<lambda>s. (closed s, body_closes s))
     (apply_calls [CallNext, CallNext, CallClose]
        (newAudioStream (Some \<lparr>Body = Some (bytes_reader ''data'')\<rparr>)))
   = Inr (True, 0)"
  by (simp add: as_eval)

lemma body_Read_close_calls [simp]:
  "body_close_calls (snd (body_Read n b)) = body_close_calls b"
  by (simp add: body_Read_def split: list.splits)

lemma resp_Body_set_Body:
  "resp_Body s = Inr b \<Longrightarrow> resp_Body (set_Body b' s) = Inr b'"
  by (auto simp add: resp_Body_def set_Body_def split: option.splits)

lemma set_Body_fields [simp]:
  "closed (set_Body b s) = closed s" "chunkSize (set_Body b s) = chunkSize s"
  "err (set_Body b s) = err s" "buf (set_Body b s) = buf s"
  by (simp_all add: set_Body_def)

lemma resp_Body_update [simp]:
  "resp_Body (s\<lparr>closed := c\<rparr>) = resp_Body s" "resp_Body (s\<lparr>buf := bf\<rparr>) = resp_Body s"
  "resp_Body (s\<lparr>err := e\<rparr>) = resp_Body s"
  by (simp_all add: resp_Body_def)

lemma io_Copy_close_calls:
  "body_close_calls (snd (io_Copy b out)) = body_close_calls b"
proof (induction b out rule: io_Copy.induct)
  case (1 b out)
  obtain p e b' where r: "body_Read MinRead b = ((p, e), b')"
    by (metis prod.exhaust)
  have c: "body_close_calls b' = body_close_calls b"
    using body_Read_close_calls[of MinRead b] r by simp
  show ?case
  proof (cases e)
    case None
    then show ?thesis using r c "1.IH"[of "(p, e)" b' p e] by (subst io_Copy.simps) simp
  next
    case (Some x)
    then show ?thesis using r c by (subst io_Copy.simps) simp
  qed
qed

lemma as_Close_keeps:
  assumes "closes_at_most_once s"
  shows "closes_at_most_once (snd (as_Close s))"
  using assms
  by (auto simp add: closes_at_most_once_def as_Close_def resp_Body_def set_Body_def body_Close_def
      split: option.splits sum.splits if_splits)

lemma as_Next_keeps:
  assumes "closes_at_most_once s"
  shows "\<exists>ok s'. as_Next s = Inr (ok, s') \<and> closes_at_most_once s'"
proof -
  from assms obtain b where b: "resp_Body s = Inr b"
    by (auto simp add: closes_at_most_once_def split: sum.splits)
  obtain p e b' where r: "body_Read (nat (chunkSize s)) b = ((p, e), b')"
    by (metis prod.exhaust)
  have c: "body_close_calls b' = body_close_calls b"
    using body_Read_close_calls[of "nat (chunkSize s)" b] r by simp
  show ?thesis using assms b r c
    by (auto simp add: as_Next_def closes_at_most_once_def resp_Body_set_Body Let_def
        split: option.splits)
qed

lemma as_Read_keeps:
  assumes "closes_at_most_once s"
  shows "\<exists>r s'. as_Read n s = Inr (r, s') \<and> closes_at_most_once s'"
proof -
  from assms obtain b where b: "resp_Body s = Inr b"
    by (auto simp add: closes_at_most_once_def split: sum.splits)
  show ?thesis using assms b
    by (auto simp add: as_Read_def closes_at_most_once_def resp_Body_set_Body)
qed

lemma as_Collect_keeps:
  assumes "closes_at_most_once s"
  shows "\<exists>r s'. as_Collect s = Inr (r, s') \<and> closes_at_most_once s'"
proof -
  from assms obtain b where b: "resp_Body s = Inr b"
    by (auto simp add: closes_at_most_once_def split: sum.splits)
  obtain d e b' where r: "io_Copy b [] = ((d, e), b')"
    by (metis prod.exhaust)
  have c: "body_close_calls b' = body_close_calls b"
    using io_Copy_close_calls[of b "[]"] r by simp
  have "closes_at_most_once (set_Body b' s)"
    using assms b c by (auto simp add: closes_at_most_once_def resp_Body_set_Body split: if_splits)
  then have "closes_at_most_once (snd (as_Close (set_Body b' s)))" by (rule as_Close_keeps)
  then show ?thesis using b r by (cases e) (simp_all add: as_Collect_def)
qed

lemma apply_call_keeps:
  assumes "closes_at_most_once s"
  shows "\<exists>s'. apply_call c s = Inr s' \<and> closes_at_most_once s'"
proof (cases c)
  case CallNext
  then show ?thesis using as_Next_keeps[OF assms] by auto
next
  case CallCollect
  then show ?thesis using as_Collect_keeps[OF assms] by auto
next
  case CallClose
  then show ?thesis using as_Close_keeps[OF assms] by simp
next
  case (CallRead n)
  then show ?thesis using as_Read_keeps[OF assms, of n] by auto
qed (simp_all add: assms)

lemma apply_calls_keeps:
  assumes "closes_at_most_once s"
  shows "\<exists>s'. apply_calls cs s = Inr s' \<and> closes_at_most_once s'"
  using assms
proof (induction cs arbitrary: s)
  case Nil
  then show ?case by simp
next
  case (Cons c cs)
  from apply_call_keeps[OF Cons.prems, of c] obtain s1
    where s1: "apply_call c s = Inr s1" "closes_at_most_once s1" by blast
  from Cons.IH[OF s1(2)] show ?case using s1(1) by simp
qed

lemma closes_at_most_once_new:
  "body_close_calls b = 0 \<Longrightarrow> closes_at_most_once (newAudioStream (Some \<lparr>Body = Some b\<rparr>))"
  by (simp add: closes_at_most_once_def newAudioStream_def resp_Body_def)

lemma closes_at_most_once_bound:
  "closes_at_most_once s \<Longrightarrow> body_closes s \<le> 1 \<and> (body_closes s = 1 \<longrightarrow> closed s)"
  by (auto simp add: closes_at_most_once_def body_closes_def split: sum.splits if_splits)

text \<open>
  C5, as stated, fails: \<open>Close\<close> on the duplex stream sets a flag and nothing else.
  The connection is not closed and the receive goroutine goes on reading from it and
  filling \<open>audioChan\<close>.
\<close>

theorem C5_counterexample:
  "conn_close_calls (conn (snd (ws_Close (opened [audio_frame ''chunk1''] [])))) = 0
   \<and> recv_at (snd (ws_Close (opened [audio_frame ''chunk1''] []))) = Reading
   \<and> audioChan (recv_step (snd (ws_Close (opened [audio_frame ''chunk1''] [])))) = [''chunk1'']"
  by (simp add: ws_Close_def opened_def audio_frame_def recv_step_def dispatch_def audioChan_cap_def)

text \<open>
  C5, amended. On both streams a second \<open>Close\<close> returns nil and changes nothing.
  On the single-response stream, whatever methods are called and in whatever order, the
  body is closed at most once, and closed only with the stream's flag set; a \<open>Close\<close>
  that finds the flag unset closes the body and returns what the body's \<open>Close\<close>
  returned. On the duplex stream \<open>Close\<close> leaves the connection and the receive
  goroutine as they are.
\<close>

theorem C5_close_idempotent_body_closed_at_most_once:
  "as_Close (snd (as_Close s)) = (None, snd (as_Close s))
   \<and> ws_Close (snd (ws_Close w)) = (None, snd (ws_Close w))
   \<and> (body_close_calls b = 0 \<longrightarrow>
        (\<exists>s'. apply_calls calls (newAudioStream (Some \<lparr>Body = Some b\<rparr>)) = Inr s'
              \<and> body_closes s' \<le> 1 \<and> (body_closes s' = 1 \<longrightarrow> closed s')))
   \<and> (\<not> closed s \<and> resp_Body s = Inr b' \<longrightarrow>
        fst (as_Close s) = close_result b' \<and> closed (snd (as_Close s))
        \<and> body_closes (snd (as_Close s)) = Suc (body_close_calls b'))
   \<and> conn (snd (ws_Close w)) = conn w \<and> recv_at (snd (ws_Close w)) = recv_at w"
proof (intro conjI impI)
  show "as_Close (snd (as_Close s)) = (None, snd (as_Close s))"
    by (simp add: as_Close_def set_Body_def split: option.splits)
  show "ws_Close (snd (ws_Close w)) = (None, snd (ws_Close w))"
    by (simp add: ws_Close_def)
  show "conn (snd (ws_Close w)) = conn w" "recv_at (snd (ws_Close w)) = recv_at w"
    by (simp_all add: ws_Close_def)
next
  assume "body_close_calls b = 0"
  then have "closes_at_most_once (newAudioStream (Some \<lparr>Body = Some b\<rparr>))"
    by (rule closes_at_most_once_new)
  from apply_calls_keeps[OF this, of calls] obtain s'
    where "apply_calls calls (newAudioStream (Some \<lparr>Body = Some b\<rparr>)) = Inr s'"
      and "closes_at_most_once s'" by blast
  then show "\<exists>s'. apply_calls calls (newAudioStream (Some \<lparr>Body = Some b\<rparr>)) = Inr s'
              \<and> body_closes s' \<le> 1 \<and> (body_closes s' = 1 \<longrightarrow> closed s')"
    using closes_at_most_once_bound by blast
next
  assume a: "\<not> closed s \<and> resp_Body s = Inr b'"
  then show "fst (as_Close s) = close_result b'" "closed (snd (as_Close s))"
    "body_closes (snd (as_Close s)) = Suc (body_close_calls b')"
    by (auto simp add: as_Close_def resp_Body_def set_Body_def body_Close_def body_closes_def
        split: option.splits)
qed

theorem C5_witness:
  "body_close_calls (bytes_reader ''data'') = 0
   \<and> \<not> closed (newAudioStream (Some \<lparr>Body = Some (bytes_reader ''data'')\<rparr>))
   \<and> resp_Body (newAudioStream (Some \<lparr>Body = Some (bytes_reader ''data'')\<rparr>))
       = Inr (bytes_reader ''data'')
   \<and> fst (as_Close (newAudioStream (Some \<lparr>Body = Some (bytes_reader ''data'')\<rparr>))) = None
   \<and> closed (snd (as_Close (newAudioStream (Some \<lparr>Body = Some (bytes_reader ''data'')\<rparr>))))
   \<and> body_closes (snd (as_Close (newAudioStream (Some \<lparr>Body = Some (bytes_reader ''data'')\<rparr>)))) = 1
   \<and> body_closes (snd (as_Close (snd (as_Close
         (newAudioStream (Some \<lparr>Body = Some (bytes_reader ''data'')\<rparr>)))))) = 1
   \<and> (case apply_calls [CallNext, CallClose, CallCollect, CallClose, CallRead 10]
              (newAudioStream (Some \<lparr>Body = Some (bytes_reader ''data'')\<rparr>)) of
         Inr s' \<Rightarrow> body_closes s' \<le> 1
       | Inl _ \<Rightarrow> False)
   \<and> ws_Close (snd (ws_Close (opened [] []))) = (None, snd (ws_Close (opened [] [])))"
proof -
  let ?b = "bytes_reader ''data''"
  let ?s = "newAudioStream (Some \<lparr>Body = Some ?b\<rparr>)"
  let ?calls = "[CallNext, CallClose, CallCollect, CallClose, CallRead 10]"
  note t = C5_close_idempotent_body_closed_at_most_once[of ?s "opened [] []" ?b ?calls ?b]
  have h: "body_close_calls ?b = 0" "\<not> closed ?s" "resp_Body ?s = Inr ?b"
    by (simp_all add: bytes_reader_def newAudioStream_def resp_Body_def)
  have r: "close_result ?b = None" by (simp add: bytes_reader_def)
  from t h r have 1: "fst (as_Close ?s) = None" "closed (snd (as_Close ?s))"
    "body_closes (snd (as_Close ?s)) = 1" by simp_all
  from t have 2: "as_Close (snd (as_Close ?s)) = (None, snd (as_Close ?s))" by blast
  have 3: "body_closes (snd (as_Close (snd (as_Close ?s)))) = 1" unfolding 2 using 1 by simp
  from t h obtain s' where s': "apply_calls ?calls ?s = Inr s'" "body_closes s' \<le> 1" by blast
  then have 4: "(case apply_calls ?calls ?s of Inr s' \<Rightarrow> body_closes s' \<le> 1 | Inl _ \<Rightarrow> False)"
    by simp
  from t have 5: "ws_Close (snd (ws_Close (opened [] []))) = (None, snd (ws_Close (opened [] [])))"
    by blast
  from h 1 3 4 5 show ?thesis by simp
qed

section \<open>The single-response stream: \<open>Collect\<close> and the loop over \<open>Next\<close>\<close>

lemma body_Read_data:
  assumes "readable b" and "body_Read n b = ((p, None), b')"
  shows "p @ concat (segs b') = concat (segs b)" and "final b' = final b"
    and "piggyback b' = piggyback b" and "readable b'" and "segs b \<noteq> []"
  using assms
  by (auto simp add: body_Read_def readable_def split: list.splits if_splits)

lemma body_Read_smaller:
  assumes "0 < n" and "body_Read n b = ((p, None), b')"
  shows "body_size b' < body_size b"
  using assms
  by (auto simp add: body_Read_def body_size_def split: list.splits if_splits)

lemma body_Read_end:
  assumes "readable b" and "body_Read n b = ((p, Some e), b')"
  shows "e = final b" and "p = concat (segs b)" and "segs b = [] \<or> piggyback b"
  using assms
  by (auto simp add: body_Read_def readable_def split: list.splits if_splits)

lemma body_Read_plain:
  assumes "readable b" and "\<not> piggyback b"
  shows "snd (fst (body_Read n b)) = (if segs b = [] then Some (final b) else None)"
  using assms
  by (auto simp add: body_Read_def readable_def split: list.splits if_splits)

lemma io_Copy_result:
  assumes "readable b"
  shows "fst (io_Copy b out) = (out @ concat (segs b), end_error b)"
  using assms
proof (induction b out rule: io_Copy.induct)
  case (1 b out)
  obtain p e b' where r: "body_Read MinRead b = ((p, e), b')"
    by (metis prod.exhaust)
  show ?case
  proof (cases e)
    case None
    note d = body_Read_data[OF "1.prems" r[unfolded None]]
    have "fst (io_Copy b' (out @ p)) = ((out @ p) @ concat (segs b'), end_error b')"
      using "1.IH"[of "(p, e)" b' p e] r None d(4) by simp
    then show ?thesis using r None d by (subst io_Copy.simps) (simp add: end_error_def)
  next
    case (Some x)
    note d = body_Read_end[OF "1.prems" r[unfolded Some]]
    show ?thesis using r Some d by (subst io_Copy.simps) (simp add: end_error_def)
  qed
qed

lemma as_Collect_result:
  assumes "resp_Body s = Inr b" and "readable b"
  shows "map_sum id fst (as_Collect s)
           = Inr (if final b = EOF then (concat (segs b), None) else ([], Some (final b)))"
    and "map_sum id (closed \<circ> snd) (as_Collect s) = Inr True"
proof -
  obtain d e b' where r: "io_Copy b [] = ((d, e), b')" by (metis prod.exhaust)
  have f: "d = concat (segs b)" "e = end_error b"
    using io_Copy_result[OF assms(2), of "[]"] r by simp_all
  show "map_sum id fst (as_Collect s)
           = Inr (if final b = EOF then (concat (segs b), None) else ([], Some (final b)))"
    using assms(1) r f by (simp add: as_Collect_def end_error_def)
  have "closed (snd (as_Close t))" for t
    by (simp add: as_Close_def split: option.splits)
  then show "map_sum id (closed \<circ> snd) (as_Collect s) = Inr True"
    using assms(1) r by (cases e) (simp_all add: as_Collect_def)
qed

lemma drain_result:
  assumes "resp_Body s = Inr b" and "readable b" and "\<not> piggyback b"
    and "\<not> closed s" and "err s = None" and "0 < chunkSize s"
  shows "\<exists>fuel chunks s'. drain fuel s acc = Some (Inr (acc @ chunks, s'))
           \<and> concat chunks = concat (segs b) \<and> err s' = end_error b
           \<and> (closed s' \<longleftrightarrow> final b = EOF)"
  using assms
proof (induction "body_size b" arbitrary: s b acc rule: less_induct)
  case less
  obtain p e b' where r: "body_Read (nat (chunkSize s)) b = ((p, e), b')"
    by (metis prod.exhaust)
  have pl: "e = (if segs b = [] then Some (final b) else None)"
    using body_Read_plain[OF less.prems(2,3), of "nat (chunkSize s)"] r by simp
  show ?case
  proof (cases "segs b = []")
    case True
    with pl have e: "e = Some (final b)" by simp
    have "\<exists>s'. as_Next s = Inr (False, s') \<and> err s' = end_error b \<and> (closed s' \<longleftrightarrow> final b = EOF)"
      using less.prems r e
      by (auto simp add: as_Next_def Let_def end_error_def)
    then obtain s' where n: "as_Next s = Inr (False, s')" "err s' = end_error b"
      "closed s' \<longleftrightarrow> final b = EOF" by blast
    have "drain (Suc 0) s acc = Some (Inr (acc @ [], s'))" using n(1) by simp
    then show ?thesis using n(2,3) True by (metis concat.simps(1))
  next
    case False
    with pl have e: "e = None" by simp
    note d = body_Read_data[OF less.prems(2) r[unfolded e]]
    let ?s1 = "(set_Body b' s)\<lparr>buf := p\<rparr>"
    have n: "as_Next s = Inr (True, ?s1)"
      using less.prems r e by (simp add: as_Next_def)
    have sm: "body_size b' < body_size b"
      using body_Read_smaller[OF _ r[unfolded e]] less.prems(6) by simp
    have p1: "resp_Body ?s1 = Inr b'" using less.prems(1) by (simp add: resp_Body_set_Body)
    have np: "\<not> piggyback b'" using d(3) less.prems(3) by simp
    have c1: "\<not> closed ?s1" "err ?s1 = None" "0 < chunkSize ?s1" using less.prems by simp_all
    from less.hyps[OF sm p1 d(4) np c1, of "acc @ [p]"]
    obtain fuel chunks s' where
      dr: "drain fuel ?s1 (acc @ [p]) = Some (Inr ((acc @ [p]) @ chunks, s'))"
      and cc: "concat chunks = concat (segs b')" and er: "err s' = end_error b'"
      and cl: "closed s' \<longleftrightarrow> final b' = EOF" by blast
    have "drain (Suc fuel) s acc = Some (Inr (acc @ (p # chunks), s'))"
      using n dr by (simp add: as_Bytes_def)
    moreover have "concat (p # chunks) = concat (segs b)" using cc d(1) by simp
    moreover have "err s' = end_error b" using er d(2) by (simp add: end_error_def)
    moreover have "closed s' \<longleftrightarrow> final b = EOF" using cl d(2) by simp
    ultimately show ?thesis by blast
  qed
qed

text \<open>
  Where C6 does hold: over a body that reports its end only on a read of its own, the
  loop over \<open>Next\<close> ends, and \<open>Collect\<close> on the same stream returns the
  concatenation of the chunks the loop delivers, or the error the loop leaves in
  \<open>Err()\<close>; \<open>Collect\<close> leaves the stream closed.
\<close>

lemma collect_agrees_with_next_loop:
  assumes "resp_Body s = Inr b" and "readable b" and "\<not> piggyback b"
    and "\<not> closed s" and "err s = None" and "0 < chunkSize s"
  shows "\<exists>fuel chunks s'. drain fuel s [] = Some (Inr (chunks, s'))
           \<and> map_sum id fst (as_Collect s)
               = Inr (case as_Err s' of None \<Rightarrow> (concat chunks, None) | Some e \<Rightarrow> ([], Some e))
           \<and> map_sum id (closed \<circ> snd) (as_Collect s) = Inr True"
proof -
  from drain_result[OF assms, of "[]"] obtain fuel chunks s' where
    d: "drain fuel s [] = Some (Inr (chunks, s'))" "concat chunks = concat (segs b)"
       "err s' = end_error b" by auto
  have "map_sum id fst (as_Collect s)
          = Inr (case as_Err s' of None \<Rightarrow> (concat chunks, None) | Some e \<Rightarrow> ([], Some e))"
    using as_Collect_result(1)[OF assms(1,2)] d(2,3) by (simp add: as_Err_def end_error_def)
  then show ?thesis using d(1) as_Collect_result(2)[OF assms(1,2)] by blast
qed

text \<open>
  C6. A body that reports \<open>io.EOF\<close> together with its last bytes, as the HTTP client's
  body of declared length does: \<open>Next\<close> sees the error, returns false and drops the
  bytes of that read, so the loop over \<open>Next\<close> delivers nothing, while \<open>Collect\<close>
  returns all three bytes.
\<close>

theorem C6_next_drops_bytes_read_with_EOF:
  "map_option (map_sum id fst)
     (drain 1 (newAudioStream (Some \<lparr>Body = Some (declared_length_body ''abc'')\<rparr>)) [])
     = Some (Inr [])
   \<and> map_sum id fst (as_Collect (newAudioStream (Some \<lparr>Body = Some (declared_length_body ''abc'')\<rparr>)))
     = Inr (''abc'', None)"
proof -
  let ?b = "declared_length_body ''abc''"
  let ?s = "newAudioStream (Some \<lparr>Body = Some ?b\<rparr>)"
  have b: "resp_Body ?s = Inr ?b" by (simp add: newAudioStream_def resp_Body_def)
  have r: "readable ?b" by (simp add: readable_def declared_length_body_def)
  have "map_sum id fst (as_Collect ?s) = Inr (''abc'', None)"
    using as_Collect_result(1)[OF b r] by (simp add: declared_length_body_def)
  moreover have "map_option (map_sum id fst) (drain 1 ?s []) = Some (Inr [])"
    by (simp add: newAudioStream_def as_Next_def resp_Body_def set_Body_def body_Read_def
        declared_length_body_def)
  ultimately show ?thesis by simp
qed

section \<open>Reading either stream as a byte stream\<close>

lemma ws_Read_buffered:
  assumes "ws_buf s \<noteq> []"
  shows "ws_Read p n s = (Some (take n (ws_buf s), None), s\<lparr>ws_buf := drop n (ws_buf s)\<rparr>)"
  using assms by (simp add: ws_Read_def)

lemma ws_Read_pull:
  assumes "ws_buf s = []" and "audioChan s = c # cs" and "errChan s = None \<or> p = PickFirst"
  shows "fst (ws_Read p n s) = Some (take n c, None)"
    and "ws_buf (snd (ws_Read p n s)) = drop n c"
    and "audioChan (snd (ws_Read p n s)) = cs"
    and "errChan (snd (ws_Read p n s)) = errChan s"
  using assms by (auto simp add: ws_Read_def)

lemma ws_reads_buffered:
  assumes "ws_buf s = b" and "\<forall>n\<in>set ns. 0 < n" and "sum_list ns \<le> length b"
  shows "concat (fst (ws_reads p ns s)) = take (sum_list ns) b
       \<and> length (fst (ws_reads p ns s)) = length ns
       \<and> ws_buf (snd (ws_reads p ns s)) = drop (sum_list ns) b
       \<and> audioChan (snd (ws_reads p ns s)) = audioChan s
       \<and> errChan (snd (ws_reads p ns s)) = errChan s"
  using assms
proof (induction ns arbitrary: s b)
  case Nil
  then show ?case by simp
next
  case (Cons n ns)
  from Cons.prems have n: "0 < n" and le: "n + sum_list ns \<le> length b" by simp_all
  then have ne: "ws_buf s \<noteq> []" using Cons.prems(1) by auto
  let ?s' = "s\<lparr>ws_buf := drop n b\<rparr>"
  have r: "ws_Read p n s = (Some (take n b, None), ?s')"
    using ws_Read_buffered[OF ne, of p n] Cons.prems(1) by simp
  have ih: "concat (fst (ws_reads p ns ?s')) = take (sum_list ns) (drop n b)
       \<and> length (fst (ws_reads p ns ?s')) = length ns
       \<and> ws_buf (snd (ws_reads p ns ?s')) = drop (sum_list ns) (drop n b)
       \<and> audioChan (snd (ws_reads p ns ?s')) = audioChan ?s'
       \<and> errChan (snd (ws_reads p ns ?s')) = errChan ?s'"
    using Cons.prems(2) le by (intro Cons.IH) simp_all
  have "take n b @ take (sum_list ns) (drop n b) = take (n + sum_list ns) b"
    by (simp add: take_add)
  then show ?case using r ih by (simp add: add.commute)
qed

lemma ws_reads_chunk:
  assumes "ws_buf s = []" and "audioChan s = c # cs" and "errChan s = None \<or> p = PickFirst"
    and "ns \<noteq> []" and "\<forall>n\<in>set ns. 0 < n" and "sum_list ns \<le> length c"
  shows "concat (fst (ws_reads p ns s)) = take (sum_list ns) c
       \<and> length (fst (ws_reads p ns s)) = length ns
       \<and> ws_buf (snd (ws_reads p ns s)) = drop (sum_list ns) c
       \<and> audioChan (snd (ws_reads p ns s)) = cs"
proof -
  from assms(4) obtain n ms where ns: "ns = n # ms" by (cases ns) auto
  obtain r s' where rs: "ws_Read p n s = (r, s')" by (cases "ws_Read p n s")
  note pl = ws_Read_pull[OF assms(1-3), of n, unfolded rs fst_conv snd_conv]
  have b: "concat (fst (ws_reads p ms s')) = take (sum_list ms) (drop n c)
       \<and> length (fst (ws_reads p ms s')) = length ms
       \<and> ws_buf (snd (ws_reads p ms s')) = drop (sum_list ms) (drop n c)
       \<and> audioChan (snd (ws_reads p ms s')) = audioChan s'
       \<and> errChan (snd (ws_reads p ms s')) = errChan s'"
    using assms(5,6) ns pl(2) by (intro ws_reads_buffered) simp_all
  have "take n c @ take (sum_list ms) (drop n c) = take (n + sum_list ms) c"
    by (simp add: take_add)
  then show ?thesis using ns rs pl b by (simp add: add.commute)
qed

lemma ws_Read_like_Next:
  assumes "\<not> ws_closed s" and "ws_err s = None" and "ws_buf s = []"
  shows "(fst (ws_Read p n s) = None) = (fst (ws_Next p s) = None)"
    and "audioChan (snd (ws_Read p n s)) = audioChan (snd (ws_Next p s))"
    and "errChan (snd (ws_Read p n s)) = errChan (snd (ws_Next p s))"
    and "ws_err (snd (ws_Read p n s)) = ws_err (snd (ws_Next p s))"
  using assms
  by (auto simp add: ws_Read_def ws_Next_def split: list.splits option.splits)

text \<open>
  C7, as stated, fails for the single-response stream. After \<open>Next\<close> has put the
  chunk \<open>abcd\<close> into the stream's buffer, \<open>Read\<close> does not copy from that buffer: it
  returns the next bytes of the body and leaves the buffer alone. Nor does \<open>Read\<close> go
  the way of \<open>Next\<close>: at the end of the body \<open>Next\<close> sets the closed flag, \<open>Read\<close>
  does not.
\<close>

theorem C7_counterexample:
  "map_sum id (\<lambda>r. (fst r, as_Bytes (snd r))) (as_Next small_chunks) = Inr (True, ''abcd'')
   \<and> map_sum id (\<lambda>r. (fst r, buf (snd r)))
        (case as_Next small_chunks of Inr r \<Rightarrow> as_Read 2 (snd r) | Inl pn \<Rightarrow> Inl pn)
       = Inr ((''ef'', None), ''abcd'')
   \<and> map_sum id (\<lambda>r. (fst r, closed (snd r)))
        (as_Read 8 (newAudioStream (Some \<lparr>Body = Some (bytes_reader [])\<rparr>)))
       = Inr (([], Some EOF), False)
   \<and> map_sum id (\<lambda>r. (fst r, closed (snd r)))
        (as_Next (newAudioStream (Some \<lparr>Body = Some (bytes_reader [])\<rparr>)))
       = Inr (False, True)"
  by (simp add: small_chunks_def as_eval)

text \<open>
  C7, amended. On the duplex stream \<open>Read\<close> first copies from the buffered remainder
  and touches no channel; with the remainder empty it receives from the channels as
  \<open>Next\<close> does on an open stream, and what does not fit the buffer becomes the
  remainder; reads with non-empty buffers whose sizes add up to at most the length of
  a chunk return, put together, that many leading bytes of the chunk and leave the rest
  as the remainder. On the single-response stream \<open>Read\<close> keeps no remainder: a
  closed stream reports \<open>io.EOF\<close>, and otherwise the call goes to the body's \<open>Read\<close>
  and only the body changes.
\<close>

theorem C7_read_serves_remainder_then_pulls:
  "(ws_buf s \<noteq> [] \<longrightarrow>
      ws_Read p n s = (Some (take n (ws_buf s), None), s\<lparr>ws_buf := drop n (ws_buf s)\<rparr>))
   \<and> (ws_buf s = [] \<and> audioChan s = c # cs \<and> (errChan s = None \<or> p = PickFirst) \<longrightarrow>
        fst (ws_Read p n s) = Some (take n c, None)
        \<and> ws_buf (snd (ws_Read p n s)) = drop n c
        \<and> audioChan (snd (ws_Read p n s)) = cs)
   \<and> (ws_buf s = [] \<and> \<not> ws_closed s \<and> ws_err s = None \<longrightarrow>
        (fst (ws_Read p n s) = None) = (fst (ws_Next p s) = None)
        \<and> audioChan (snd (ws_Read p n s)) = audioChan (snd (ws_Next p s))
        \<and> errChan (snd (ws_Read p n s)) = errChan (snd (ws_Next p s))
        \<and> ws_err (snd (ws_Read p n s)) = ws_err (snd (ws_Next p s)))
   \<and> (ws_buf s = [] \<and> audioChan s = c # cs \<and> (errChan s = None \<or> p = PickFirst)
        \<and> ns \<noteq> [] \<and> (\<forall>k\<in>set ns. 0 < k) \<and> sum_list ns \<le> length c \<longrightarrow>
        concat (fst (ws_reads p ns s)) = take (sum_list ns) c
        \<and> length (fst (ws_reads p ns s)) = length ns
        \<and> ws_buf (snd (ws_reads p ns s)) = drop (sum_list ns) c
        \<and> audioChan (snd (ws_reads p ns s)) = cs)
   \<and> (closed a \<longrightarrow> as_Read n a = Inr (([], Some EOF), a))
   \<and> (\<not> closed a \<and> resp_Body a = Inr b \<longrightarrow>
        as_Read n a = Inr (fst (body_Read n b), set_Body (snd (body_Read n b)) a))"
proof (intro conjI impI)
  assume "ws_buf s \<noteq> []"
  then show "ws_Read p n s = (Some (take n (ws_buf s), None), s\<lparr>ws_buf := drop n (ws_buf s)\<rparr>)"
    by (rule ws_Read_buffered)
next
  assume a: "ws_buf s = [] \<and> audioChan s = c # cs \<and> (errChan s = None \<or> p = PickFirst)"
  then show "fst (ws_Read p n s) = Some (take n c, None)"
    "ws_buf (snd (ws_Read p n s)) = drop n c" "audioChan (snd (ws_Read p n s)) = cs"
    using ws_Read_pull[of s c cs p n] by blast+
next
  assume a: "ws_buf s = [] \<and> \<not> ws_closed s \<and> ws_err s = None"
  then show "(fst (ws_Read p n s) = None) = (fst (ws_Next p s) = None)"
    "audioChan (snd (ws_Read p n s)) = audioChan (snd (ws_Next p s))"
    "errChan (snd (ws_Read p n s)) = errChan (snd (ws_Next p s))"
    "ws_err (snd (ws_Read p n s)) = ws_err (snd (ws_Next p s))"
    using ws_Read_like_Next[of s p n] by blast+
next
  assume a: "ws_buf s = [] \<and> audioChan s = c # cs \<and> (errChan s = None \<or> p = PickFirst)
        \<and> ns \<noteq> [] \<and> (\<forall>k\<in>set ns. 0 < k) \<and> sum_list ns \<le> length c"
  then have "concat (fst (ws_reads p ns s)) = take (sum_list ns) c
       \<and> length (fst (ws_reads p ns s)) = length ns
       \<and> ws_buf (snd (ws_reads p ns s)) = drop (sum_list ns) c
       \<and> audioChan (snd (ws_reads p ns s)) = cs"
    by (intro ws_reads_chunk) blast+
  then show "concat (fst (ws_reads p ns s)) = take (sum_list ns) c"
    "length (fst (ws_reads p ns s)) = length ns"
    "ws_buf (snd (ws_reads p ns s)) = drop (sum_list ns) c"
    "audioChan (snd (ws_reads p ns s)) = cs" by blast+
next
  assume "closed a"
  then show "as_Read n a = Inr (([], Some EOF), a)" by (simp add: as_Read_def)
next
  assume "\<not> closed a \<and> resp_Body a = Inr b"
  then show "as_Read n a = Inr (fst (body_Read n b), set_Body (snd (body_Read n b)) a)"
    by (simp add: as_Read_def)
qed

theorem C7_witness:
  "ws_buf (queued [''hello world'']) = []
   \<and> audioChan (queued [''hello world'']) = [''hello world'']
   \<and> errChan (queued [''hello world'']) = None
   \<and> \<not> ws_closed (queued [''hello world''])
   \<and> fst (ws_Read PickFirst 5 (queued [''hello world''])) = Some (''hello'', None)
   \<and> ws_buf (snd (ws_Read PickFirst 5 (queued [''hello world'']))) = '' world''
   \<and> fst (ws_Read PickFirst 5 (snd (ws_Read PickFirst 5 (queued [''hello world''])))) = Some ('' worl'', None)
   \<and> ws_buf (snd (ws_Read PickFirst 5 (snd (ws_Read PickFirst 5 (queued [''hello world'']))))) = ''d''
   \<and> fst (ws_Next PickFirst (queued [''hello world''])) \<noteq> None
   \<and> audioChan (snd (ws_Next PickFirst (queued [''hello world'']))) = []
   \<and> concat (fst (ws_reads PickFirst [5, 5, 1] (queued [''hello world'']))) = ''hello world''
   \<and> length (fst (ws_reads PickFirst [5, 5, 1] (queued [''hello world'']))) = 3
   \<and> ws_buf (snd (ws_reads PickFirst [5, 5, 1] (queued [''hello world'']))) = []
   \<and> audioChan (snd (ws_reads PickFirst [5, 5, 1] (queued [''hello world'']))) = []
   \<and> closed (snd (as_Close (newAudioStream (Some \<lparr>Body = Some (bytes_reader ''data'')\<rparr>))))
   \<and> map_sum id fst (as_Read 10 (snd (as_Close (newAudioStream (Some \<lparr>Body = Some (bytes_reader ''data'')\<rparr>)))))
       = Inr ([], Some EOF)
   \<and> map_sum id fst
        (as_Read 10 (newAudioStream (Some \<lparr>Body = Some (bytes_reader ''audio data for read test'')\<rparr>)))
       = Inr (''audio data'', None)"
proof -
  let ?q = "queued [''hello world'']"
  let ?c = "''hello world''"
  have q: "ws_buf ?q = []" "audioChan ?q = ?c # []" "errChan ?q = None" "\<not> ws_closed ?q"
    "ws_err ?q = None"
    by (simp_all add: queued_def opened_def)
  note t1 = C7_read_serves_remainder_then_pulls[of ?q PickFirst 5 ?c "[]" "[5, 5, 1]"]
  from t1 q have r1: "fst (ws_Read PickFirst 5 ?q) = Some (take 5 ?c, None)"
    "ws_buf (snd (ws_Read PickFirst 5 ?q)) = drop 5 ?c" by blast+
  let ?q1 = "snd (ws_Read PickFirst 5 ?q)"
  have ne: "ws_buf ?q1 \<noteq> []" using r1(2) by simp
  note t2 = C7_read_serves_remainder_then_pulls[of ?q1 PickFirst 5]
  from t2 ne have r2: "ws_Read PickFirst 5 ?q1
      = (Some (take 5 (ws_buf ?q1), None), ?q1\<lparr>ws_buf := drop 5 (ws_buf ?q1)\<rparr>)" by blast
  from t1 q have nx: "(fst (ws_Read PickFirst 5 ?q) = None) = (fst (ws_Next PickFirst ?q) = None)"
    "audioChan (snd (ws_Read PickFirst 5 ?q)) = audioChan (snd (ws_Next PickFirst ?q))"
    "audioChan (snd (ws_Read PickFirst 5 ?q)) = []" by blast+
  have hs: "[5, 5, 1] \<noteq> ([]::nat list)" "\<forall>k\<in>set [5, 5, 1::nat]. 0 < k"
    "sum_list [5, 5, 1::nat] \<le> length ?c" by simp_all
  from t1 q hs have rs:
    "concat (fst (ws_reads PickFirst [5, 5, 1] ?q)) = take (sum_list [5, 5, 1]) ?c"
    "length (fst (ws_reads PickFirst [5, 5, 1] ?q)) = length [5, 5, 1::nat]"
    "ws_buf (snd (ws_reads PickFirst [5, 5, 1] ?q)) = drop (sum_list [5, 5, 1]) ?c"
    "audioChan (snd (ws_reads PickFirst [5, 5, 1] ?q)) = []" by blast+
  let ?a = "newAudioStream (Some \<lparr>Body = Some (bytes_reader ''data'')\<rparr>)"
  let ?b = "bytes_reader ''audio data for read test''"
  let ?o = "newAudioStream (Some \<lparr>Body = Some ?b\<rparr>)"
  have cl: "closed (snd (as_Close ?a))" by (simp add: as_eval)
  note t3 = C7_read_serves_remainder_then_pulls[of _ _ 10 _ _ _ "snd (as_Close ?a)"]
  from t3 cl have r3: "as_Read 10 (snd (as_Close ?a)) = Inr (([], Some EOF), snd (as_Close ?a))"
    by blast
  have op: "\<not> closed ?o" "resp_Body ?o = Inr ?b" by (simp_all add: newAudioStream_def resp_Body_def)
  note t4 = C7_read_serves_remainder_then_pulls[of _ _ 10 _ _ _ ?o ?b]
  from t4 op have r4: "as_Read 10 ?o = Inr (fst (body_Read 10 ?b), set_Body (snd (body_Read 10 ?b)) ?o)"
    by blast
  have v4: "fst (body_Read 10 ?b) = (''audio data'', None)"
    by (simp add: body_Read_def bytes_reader_def)
  show ?thesis
    using q r1 nx rs cl by (simp add: r2 r3 r4 v4)
qed

section \<open>The duplex stream: what the send path writes\<close>

lemma take_Suc_drop:
  assumes "drop k xs = t # ts"
  shows "take (Suc k) xs = take k xs @ [t]" and "drop (Suc k) xs = ts" and "Suc k \<le> length xs"
proof -
  from assms have k: "k < length xs" by (metis drop_all list.discI not_le)
  with assms have t: "xs ! k = t" by (metis Cons_nth_drop_Suc list.inject)
  show "take (Suc k) xs = take k xs @ [t]" using k t by (simp add: take_Suc_conv_app_nth)
  show "drop (Suc k) xs = ts" using assms k by (metis Cons_nth_drop_Suc list.inject)
  show "Suc k \<le> length xs" using k by simp
qed

lemma encode_all_snoc:
  "marshal_text cd t = Inr d \<Longrightarrow> encode_all cd (ts @ [t]) = encode_all cd ts @ [d]"
  by (simp add: encode_all_def)

lemma send_return_sent:
  "send_exited (send_return cd s)
   \<and> (sent (conn (send_return cd s)) = sent (conn s)
      \<or> (\<exists>d. marshal_stop cd = Inr d \<and> sent (conn (send_return cd s)) = sent (conn s) @ [d]))"
  by (auto simp add: send_return_def conn_WriteMessage_def split: sum.splits list.splits option.splits)

lemma offer_err_sent [simp]:
  "sent (conn (offer_err e s)) = sent (conn s)" "send_exited (offer_err e s) = send_exited s"
  by (simp_all add: offer_err_def split: option.splits)

lemma wrote_prefix_send:
  assumes "wrote_prefix cd pre texts s"
  shows "wrote_prefix cd pre texts (send_step cd p s)"
proof (cases "send_exited s")
  case True
  then show ?thesis using assms by (simp add: send_step_def)
next
  case False
  with assms obtain k where k: "k \<le> length texts"
    "sent (conn s) = pre @ encode_all cd (take k texts)" "textChan s = drop k texts"
    by (auto simp add: wrote_prefix_def)
  have ret: "wrote_prefix cd pre texts (send_return cd s')"
    if "sent (conn s') = pre @ encode_all cd (take k texts)" for s'
    using send_return_sent[of cd s'] that k(1) unfolding wrote_prefix_def by auto
  show ?thesis
  proof (cases "textChan s")
    case Nil
    then show ?thesis using False k assms ret[of s]
      by (auto simp add: send_step_def)
  next
    case (Cons t ts)
    have dk: "drop k texts = t # ts" using k(3) Cons by simp
    note d = take_Suc_drop[OF dk]
    show ?thesis
    proof (cases "(\<not> doneChan_closed s \<or> p = PickFirst)")
      case pk: True
      show ?thesis
      proof (cases "marshal_text cd t")
        case (Inl e)
        have "send_step cd p s = send_return cd (offer_err (Wrapf ''failed to marshal text event'' e) (s\<lparr>textChan := ts\<rparr>))"
          using False Cons pk Inl by (auto simp add: send_step_def)
        then show ?thesis using ret[of "offer_err (Wrapf ''failed to marshal text event'' e) (s\<lparr>textChan := ts\<rparr>)"] k(2)
          by simp
      next
        case (Inr dt)
        show ?thesis
        proof (cases "fst (conn_WriteMessage dt (conn s))")
          case None
          then have w: "conn_WriteMessage dt (conn s) = (None, snd (conn_WriteMessage dt (conn s)))"
            by (metis prod.collapse)
          have sn: "sent (snd (conn_WriteMessage dt (conn s))) = sent (conn s) @ [dt]"
            using None by (auto simp add: conn_WriteMessage_def split: list.splits option.splits)
          have st: "send_step cd p s = s\<lparr>textChan := ts, conn := snd (conn_WriteMessage dt (conn s))\<rparr>"
            using False Cons pk Inr w by (auto simp add: send_step_def split: prod.splits)
          have "sent (conn (send_step cd p s)) = pre @ encode_all cd (take (Suc k) texts)"
            unfolding st using sn k(2) d(1) encode_all_snoc[OF Inr] by simp
          moreover have "textChan (send_step cd p s) = drop (Suc k) texts" unfolding st using d(2) by simp
          moreover have "\<not> send_exited (send_step cd p s)" unfolding st using False by simp
          ultimately show ?thesis unfolding wrote_prefix_def using d(3) by auto
        next
          case (Some e)
          then have w: "conn_WriteMessage dt (conn s) = (Some e, snd (conn_WriteMessage dt (conn s)))"
            by (metis prod.collapse)
          have sn: "sent (snd (conn_WriteMessage dt (conn s))) = sent (conn s)"
            using Some by (auto simp add: conn_WriteMessage_def split: list.splits option.splits)
          have st: "send_step cd p s = send_return cd (offer_err (Wrapf ''failed to send text'' e)
                       (s\<lparr>textChan := ts, conn := snd (conn_WriteMessage dt (conn s))\<rparr>))"
            using False Cons pk Inr w by (auto simp add: send_step_def split: prod.splits)
          show ?thesis unfolding st
            by (rule ret) (simp add: sn k(2))
        qed
      qed
    next
      case pk: False
      then have "send_step cd p s = send_return cd s"
        using False Cons by (auto simp add: send_step_def)
      then show ?thesis using ret[of s] k(2) by simp
    qed
  qed
qed

lemma recv_step_send_side:
  "sent (conn (recv_step s)) = sent (conn s)" "textChan (recv_step s) = textChan s"
  "send_exited (recv_step s) = send_exited s"
  "write_results (conn (recv_step s)) = write_results (conn s)"
  "doneChan_closed s \<Longrightarrow> doneChan_closed (recv_step s)"
  by (auto simp add: recv_step_def recv_deferred_def dispatch_def offer_err_def conn_Close_def
      split: recv_pc.splits list.splits inbound.splits option.splits)

lemma collect_step_send_side:
  "conn (fst (collect_step p sk)) = conn (fst sk)" "textChan (fst (collect_step p sk)) = textChan (fst sk)"
  "send_exited (fst (collect_step p sk)) = send_exited (fst sk)"
  "doneChan_closed (fst (collect_step p sk)) = doneChan_closed (fst sk)"
  by (auto simp add: collect_step_def ws_Next_def Let_def split: list.splits option.splits bool.splits)

lemma wrote_prefix_cong:
  assumes "sent (conn s') = sent (conn s)" and "textChan s' = textChan s"
    and "send_exited s' = send_exited s"
  shows "wrote_prefix cd pre texts s' = wrote_prefix cd pre texts s"
  using assms by (simp add: wrote_prefix_def)

lemma wrote_prefix_act:
  assumes "wrote_prefix cd pre texts (fst sk)"
  shows "wrote_prefix cd pre texts (fst (act cd a sk))"
proof (cases a)
  case (SendStep p)
  then show ?thesis using wrote_prefix_send[OF assms] by simp
next
  case RecvStep
  then show ?thesis using assms wrote_prefix_cong[of "recv_step (fst sk)" "fst sk"]
    by (simp add: recv_step_send_side)
next
  case (CollectStep p)
  then show ?thesis using assms wrote_prefix_cong[of "fst (collect_step p sk)" "fst sk"]
    by (simp add: collect_step_send_side)
qed

lemma wrote_prefix_run:
  "wrote_prefix cd pre texts (fst sk) \<Longrightarrow> wrote_prefix cd pre texts (fst (run cd sched sk))"
  by (induction sched arbitrary: sk) (simp_all add: wrote_prefix_act)

lemma healthy_send_recv: "healthy_send cd s \<Longrightarrow> healthy_send cd (recv_step s)"
  by (simp add: healthy_send_def recv_step_send_side)

lemma healthy_send_collect: "healthy_send cd (fst sk) \<Longrightarrow> healthy_send cd (fst (collect_step p sk))"
  by (simp add: healthy_send_def collect_step_send_side)

lemma send_return_healthy:
  assumes "write_results (conn s) = []"
  shows "sent (conn (send_return cd s))
           = sent (conn s) @ (case marshal_stop cd of Inr d \<Rightarrow> [d] | Inl _ \<Rightarrow> [])"
    and "send_exited (send_return cd s)" and "doneChan_closed (send_return cd s) = doneChan_closed s"
  using assms by (simp_all add: send_return_def conn_WriteMessage_healthy split: sum.splits)

lemma wrote_all_send:
  assumes "wrote_all cd pre texts s"
  shows "wrote_all cd pre texts (send_step cd p s)"
proof (cases "send_exited s")
  case True
  then show ?thesis using assms by (simp add: send_step_def)
next
  case False
  from assms have h: "healthy_send cd s" by (simp add: wrote_all_def)
  then have wr: "write_results (conn s) = []" by (simp add: healthy_send_def)
  from assms False obtain k where k: "k \<le> length texts"
    "sent (conn s) = pre @ encode_all cd (take k texts)" "textChan s = drop k texts"
    by (auto simp add: wrote_all_def)
  note h' = send_step_fields(9)[OF h, of p]
  show ?thesis
  proof (cases "textChan s")
    case Nil
    with k have all: "take k texts = texts" by simp
    show ?thesis
    proof (cases "send_step cd p s = s")
      case True
      then show ?thesis using assms by simp
    next
      case ne: False
      then have st: "send_step cd p s = send_return cd s"
        using False Nil by (auto simp add: send_step_def split: if_splits)
      show ?thesis unfolding st wrote_all_def
        using h'[unfolded st] send_return_healthy[OF wr, of cd] k(2) all
        by (cases "marshal_stop cd") auto
    qed
  next
    case (Cons t ts)
    have dk: "drop k texts = t # ts" using k(3) Cons by simp
    note d = take_Suc_drop[OF dk]
    from h Cons obtain dt where dt: "marshal_text cd t = Inr dt"
      by (auto simp add: healthy_send_def text_encodes_def split: sum.splits)
    show ?thesis
    proof (cases "\<not> doneChan_closed s \<or> p = PickFirst")
      case True
      have st: "send_step cd p s = s\<lparr>textChan := ts, conn := (conn s)\<lparr>sent := sent (conn s) @ [dt]\<rparr>\<rparr>"
        using False Cons True dt wr by (auto simp add: send_step_def conn_WriteMessage_healthy)
      have "sent (conn (send_step cd p s)) = pre @ encode_all cd (take (Suc k) texts)"
        unfolding st using k(2) d(1) encode_all_snoc[OF dt] by simp
      moreover have "textChan (send_step cd p s) = drop (Suc k) texts" unfolding st using d(2) by simp
      moreover have "\<not> send_exited (send_step cd p s)" unfolding st using False by simp
      ultimately show ?thesis unfolding wrote_all_def using d(3) h' by auto
    next
      case pk: False
      then have st: "send_step cd p s = send_return cd s"
        using False Cons by (auto simp add: send_step_def)
      show ?thesis unfolding st wrote_all_def
        using h'[unfolded st] send_return_healthy[OF wr, of cd] pk by auto
    qed
  qed
qed

lemma wrote_all_act:
  assumes "wrote_all cd pre texts (fst sk)"
  shows "wrote_all cd pre texts (fst (act cd a sk))"
proof (cases a)
  case (SendStep p)
  then show ?thesis using wrote_all_send[OF assms] by simp
next
  case RecvStep
  then show ?thesis using assms
    by (auto simp add: wrote_all_def recv_step_send_side healthy_send_recv)
next
  case (CollectStep p)
  then show ?thesis using assms
    by (auto simp add: wrote_all_def collect_step_send_side healthy_send_collect)
qed

lemma wrote_all_run:
  "wrote_all cd pre texts (fst sk) \<Longrightarrow> wrote_all cd pre texts (fst (run cd sched sk))"
  by (induction sched arbitrary: sk) (simp_all add: wrote_all_act)

lemma exited_keeps_sent_act:
  assumes "send_exited (fst sk)"
  shows "send_exited (fst (act cd a sk)) \<and> sent (conn (fst (act cd a sk))) = sent (conn (fst sk))"
  using assms
  by (cases a) (simp_all add: send_step_def recv_step_send_side collect_step_send_side)

lemma exited_keeps_sent_run:
  "send_exited (fst sk) \<Longrightarrow>
     send_exited (fst (run cd sched sk)) \<and> sent (conn (fst (run cd sched sk))) = sent (conn (fst sk))"
proof (induction sched arbitrary: sk)
  case Nil
  then show ?case by simp
next
  case (Cons a as)
  from exited_keeps_sent_act[OF Cons.prems, of cd a]
  have 1: "send_exited (fst (act cd a sk))" and 2: "sent (conn (fst (act cd a sk))) = sent (conn (fst sk))"
    by simp_all
  from Cons.IH[OF 1] 2 show ?case by simp
qed

lemma send_step_doneChan: "doneChan_closed (send_step cd p s) = doneChan_closed s"
  by (auto simp add: send_step_def send_return_def offer_err_def
      split: list.splits sum.splits prod.splits option.splits)

lemma send_step_textChan_closed: "textChan_closed (send_step cd p s) = textChan_closed s"
  by (auto simp add: send_step_def send_return_def offer_err_def
      split: list.splits sum.splits prod.splits option.splits)

lemma sender_alone_doneChan:
  "doneChan_closed (fst (run cd (replicate n (SendStep p)) (s, k))) = doneChan_closed s"
  by (induction n arbitrary: s) (simp_all add: send_step_doneChan)

lemma sender_alone_exits:
  assumes "healthy_send cd s" and "textChan_closed s" and "\<not> doneChan_closed s"
    and "length (textChan s) < n"
  shows "send_exited (fst (run cd (replicate n (SendStep p)) (s, k)))"
  using assms
proof (induction n arbitrary: s)
  case 0
  then show ?case by simp
next
  case (Suc n)
  from Suc.prems(1) have wr: "write_results (conn s) = []" by (simp add: healthy_send_def)
  let ?s' = "send_step cd p s"
  have r: "run cd (replicate (Suc n) (SendStep p)) (s, k) = run cd (replicate n (SendStep p)) (?s', k)"
    by simp
  show ?case
  proof (cases "send_exited ?s'")
    case True
    then show ?thesis unfolding r using exited_keeps_sent_run[of "(?s', k)" cd] by simp
  next
    case False
    then have ne: "\<not> send_exited s" by (auto simp add: send_step_def)
    have tc: "textChan s \<noteq> []"
    proof
      assume "textChan s = []"
      then have "?s' = send_return cd s" using ne Suc.prems(2,3) by (simp add: send_step_def)
      then show False using False send_return_healthy(2)[OF wr, of cd] by simp
    qed
    then obtain t ts where c: "textChan s = t # ts" by (cases "textChan s") auto
    from Suc.prems(1) c obtain dt where dt: "marshal_text cd t = Inr dt"
      by (auto simp add: healthy_send_def text_encodes_def split: sum.splits)
    have st: "?s' = s\<lparr>textChan := ts, conn := (conn s)\<lparr>sent := sent (conn s) @ [dt]\<rparr>\<rparr>"
      using ne c Suc.prems(3) dt wr by (auto simp add: send_step_def conn_WriteMessage_healthy)
    have "send_exited (fst (run cd (replicate n (SendStep p)) (?s', k)))"
    proof (rule Suc.IH)
      show "healthy_send cd ?s'" using send_step_fields(9)[OF Suc.prems(1)] .
      show "textChan_closed ?s'" using Suc.prems(2) by (simp add: send_step_textChan_closed)
      show "\<not> doneChan_closed ?s'" using Suc.prems(3) by (simp add: send_step_doneChan)
      show "length (textChan ?s') < n" unfolding st using Suc.prems(4) c by simp
    qed
    then show ?thesis unfolding r .
  qed
qed

lemma StreamWebSocket_sent:
  assumes "StreamWebSocket cd (Inr c) texts texts_closed = Inr s0"
  shows "\<exists>d0. marshal_start cd = Inr d0 \<and> sent (conn s0) = sent c @ [d0]"
    and "\<not> send_exited s0" and "textChan_closed s0 = texts_closed" and "\<not> doneChan_closed s0"
  using assms
  by (auto simp add: StreamWebSocket_def conn_WriteMessage_def
      split: sum.splits prod.splits option.splits list.splits)

text \<open>
  C8, as stated, fails: the send loop also returns when \<open>doneChan\<close> is closed. Here
  the server finishes at once, the receive goroutine returns, and the send goroutine,
  taking the \<open>doneChan\<close> case, writes the stop event while both fragments are still
  in \<open>textChan\<close>. Nothing failed, and no fragment was written.
\<close>

theorem C8_counterexample:
  "sent (conn (fst (run demo_codec [RecvStep, RecvStep, SendStep PickSecond]
      (opened [finish_frame ''stop''] [''Hello'', ''World''], new_collector))))
     = [''start'', ''stop'']
   \<and> textChan (fst (run demo_codec [RecvStep, RecvStep, SendStep PickSecond]
      (opened [finish_frame ''stop''] [''Hello'', ''World''], new_collector)))
     = [''Hello'', ''World'']
   \<and> send_exited (fst (run demo_codec [RecvStep, RecvStep, SendStep PickSecond]
      (opened [finish_frame ''stop''] [''Hello'', ''World''], new_collector)))
   \<and> errChan (fst (run demo_codec [RecvStep, RecvStep, SendStep PickSecond]
      (opened [finish_frame ''stop''] [''Hello'', ''World''], new_collector)))
     = None"
  by (simp add: duplex_eval)

text \<open>
  C8, amended. The start event is the first message written. Under every schedule the
  messages written after it are the encodings of the first \<open>k\<close> fragments, in the
  caller's order and one message each, followed by nothing or, once the send goroutine
  has returned, by the one stop event. When no encoding and no write fails and the
  send goroutine has returned with \<open>doneChan\<close> still open, all fragments were
  written, followed by exactly one stop event. Once the send goroutine has returned
  nothing more is written. With the text source closed and nothing failing, the send
  goroutine does return.
\<close>

theorem C8_texts_written_in_order_then_stop:
  assumes "StreamWebSocket cd (Inr c) texts texts_closed = Inr s0"
  shows "(\<exists>d0. marshal_start cd = Inr d0 \<and> sent (conn s0) = sent c @ [d0])
       \<and> (\<forall>sched. \<exists>k\<le>length texts. \<exists>tail.
            sent (conn (fst (run cd sched (s0, k0))))
              = sent (conn s0) @ encode_all cd (take k texts) @ tail
            \<and> (tail = [] \<or> send_exited (fst (run cd sched (s0, k0)))
                            \<and> (\<exists>d. marshal_stop cd = Inr d \<and> tail = [d])))
       \<and> (\<forall>sched d. healthy_send cd s0 \<and> marshal_stop cd = Inr d
             \<and> send_exited (fst (run cd sched (s0, k0)))
             \<and> \<not> doneChan_closed (fst (run cd sched (s0, k0)))
            \<longrightarrow> sent (conn (fst (run cd sched (s0, k0))))
                  = sent (conn s0) @ encode_all cd texts @ [d])
       \<and> (\<forall>sched more. send_exited (fst (run cd sched (s0, k0)))
            \<longrightarrow> sent (conn (fst (run cd (sched @ more) (s0, k0))))
                  = sent (conn (fst (run cd sched (s0, k0)))))
       \<and> (\<forall>p. healthy_send cd s0 \<and> texts_closed
            \<longrightarrow> send_exited (fst (run cd (replicate (Suc (length texts)) (SendStep p)) (s0, k0)))
                \<and> \<not> doneChan_closed
                     (fst (run cd (replicate (Suc (length texts)) (SendStep p)) (s0, k0))))"
proof (intro conjI allI impI)
  note s = StreamWebSocket_sent[OF assms] StreamWebSocket_session(2)[OF assms]
  show "\<exists>d0. marshal_start cd = Inr d0 \<and> sent (conn s0) = sent c @ [d0]" by (rule s(1))
  have p0: "wrote_prefix cd (sent (conn s0)) texts (fst (s0, k0))"
    unfolding wrote_prefix_def using s by (intro exI[of _ 0]) (simp add: encode_all_def)
  {
    fix sched
    let ?s = "fst (run cd sched (s0, k0))"
    have "wrote_prefix cd (sent (conn s0)) texts ?s" using p0 by (rule wrote_prefix_run)
    then obtain k where k: "k \<le> length texts"
      and c: "if send_exited ?s
        then sent (conn ?s) = sent (conn s0) @ encode_all cd (take k texts)
             \<or> (\<exists>d. marshal_stop cd = Inr d
                    \<and> sent (conn ?s) = sent (conn s0) @ encode_all cd (take k texts) @ [d])
        else sent (conn ?s) = sent (conn s0) @ encode_all cd (take k texts) \<and> textChan ?s = drop k texts"
      unfolding wrote_prefix_def by blast
    have "\<exists>tail. sent (conn ?s) = sent (conn s0) @ encode_all cd (take k texts) @ tail
            \<and> (tail = [] \<or> send_exited ?s \<and> (\<exists>d. marshal_stop cd = Inr d \<and> tail = [d]))"
    proof (cases "sent (conn ?s) = sent (conn s0) @ encode_all cd (take k texts)")
      case True
      then show ?thesis by (intro exI[of _ "[]"]) simp
    next
      case False
      with c obtain d where "send_exited ?s" "marshal_stop cd = Inr d"
        "sent (conn ?s) = sent (conn s0) @ encode_all cd (take k texts) @ [d]"
        by (auto split: if_splits)
      then show ?thesis by (intro exI[of _ "[d]"]) simp
    qed
    with k show "\<exists>k\<le>length texts. \<exists>tail.
            sent (conn ?s) = sent (conn s0) @ encode_all cd (take k texts) @ tail
            \<and> (tail = [] \<or> send_exited ?s \<and> (\<exists>d. marshal_stop cd = Inr d \<and> tail = [d]))"
      by blast
  }
  {
    fix sched d
    let ?s = "fst (run cd sched (s0, k0))"
    assume a: "healthy_send cd s0 \<and> marshal_stop cd = Inr d \<and> send_exited ?s \<and> \<not> doneChan_closed ?s"
    have "wrote_all cd (sent (conn s0)) texts (fst (s0, k0))"
      unfolding wrote_all_def using a s by (auto simp add: encode_all_def intro: exI[of _ 0])
    then have "wrote_all cd (sent (conn s0)) texts ?s" by (rule wrote_all_run)
    with a show "sent (conn ?s) = sent (conn s0) @ encode_all cd texts @ [d]"
      by (auto simp add: wrote_all_def)
  }
  {
    fix sched more
    assume "send_exited (fst (run cd sched (s0, k0)))"
    then show "sent (conn (fst (run cd (sched @ more) (s0, k0))))
                 = sent (conn (fst (run cd sched (s0, k0))))"
      unfolding run_append using exited_keeps_sent_run by blast
  }
  {
    fix p
    assume a: "healthy_send cd s0 \<and> texts_closed"
    then show "send_exited (fst (run cd (replicate (Suc (length texts)) (SendStep p)) (s0, k0)))"
      using s by (intro sender_alone_exits) simp_all
    show "\<not> doneChan_closed (fst (run cd (replicate (Suc (length texts)) (SendStep p)) (s0, k0)))"
      using s by (simp only: sender_alone_doneChan) simp
  }
qed

lemma send_first_schedule_state:
  "send_exited (fst (run demo_codec send_first_schedule
       (opened demo_frames [''Hello'', ''World''], new_collector)))"
  "\<not> doneChan_closed (fst (run demo_codec send_first_schedule
       (opened demo_frames [''Hello'', ''World''], new_collector)))"
  by (simp_all add: send_first_schedule_def demo_frames_def duplex_eval)

theorem C8_witness:
  "StreamWebSocket demo_codec (Inr (dialled demo_frames)) [''Hello'', ''World''] True
     = Inr (opened demo_frames [''Hello'', ''World''])
   \<and> healthy_send demo_codec (opened demo_frames [''Hello'', ''World''])
   \<and> marshal_stop demo_codec = Inr ''stop''
   \<and> send_exited (fst (run demo_codec send_first_schedule
        (opened demo_frames [''Hello'', ''World''], new_collector)))
   \<and> \<not> doneChan_closed (fst (run demo_codec send_first_schedule
        (opened demo_frames [''Hello'', ''World''], new_collector)))
   \<and> sent (conn (fst (run demo_codec send_first_schedule
        (opened demo_frames [''Hello'', ''World''], new_collector))))
       = [''start'', ''text:Hello'', ''text:World'', ''stop'']
   \<and> sent (conn (fst (run demo_codec (send_first_schedule @ demo_schedule)
        (opened demo_frames [''Hello'', ''World''], new_collector))))
       = [''start'', ''text:Hello'', ''text:World'', ''stop'']
   \<and> send_exited (fst (run demo_codec (replicate 3 (SendStep PickSecond))
        (opened demo_frames [''Hello'', ''World''], new_collector)))"
proof -
  let ?s0 = "opened demo_frames [''Hello'', ''World'']"
  let ?r = "fst (run demo_codec send_first_schedule (?s0, new_collector))"
  have o: "StreamWebSocket demo_codec (Inr (dialled demo_frames)) [''Hello'', ''World''] True = Inr ?s0"
    by (rule opened_demo)
  have h: "healthy_send demo_codec ?s0" by (rule healthy_opened)
  have m: "marshal_stop demo_codec = Inr ''stop''" by (simp add: demo_codec_def)
  note t = C8_texts_written_in_order_then_stop[OF o, of new_collector]
  note e = send_first_schedule_state
  from t h m e have 1: "sent (conn ?r)
      = sent (conn ?s0) @ encode_all demo_codec [''Hello'', ''World''] @ [''stop'']" by blast
  have v: "sent (conn ?s0) @ encode_all demo_codec [''Hello'', ''World''] @ [''stop'']
             = [''start'', ''text:Hello'', ''text:World'', ''stop'']"
    by (simp add: opened_def encode_all_def demo_codec_def)
  from t e(1) have 2: "sent (conn (fst (run demo_codec (send_first_schedule @ demo_schedule)
        (?s0, new_collector)))) = sent (conn ?r)" by blast
  from t h have 3: "send_exited (fst (run demo_codec
       (replicate (Suc (length [''Hello'', ''World''])) (SendStep PickSecond)) (?s0, new_collector)))"
    by blast
  have n: "Suc (length [''Hello'', ''World'']) = 3" by simp
  from o h m e 1 2 3 show ?thesis unfolding v n by simp
qed

section \<open>The duplex stream: the error slot\<close>

lemma offer_err_occupied: "errChan s = Some e \<Longrightarrow> offer_err e' s = s"
  by (simp add: offer_err_def)

lemma offer_err_free: "errChan s = None \<Longrightarrow> offer_err e' s = s\<lparr>errChan := Some e'\<rparr>"
  by (simp add: offer_err_def)

lemma send_return_ws [simp]:
  "ws_err (send_return cd s) = ws_err s"
  by (simp add: send_return_def split: sum.splits)

lemma offer_err_ws [simp]: "ws_err (offer_err e s) = ws_err s"
  by (simp add: offer_err_def split: option.splits)

lemma offer_err_errChan:
  "errChan (offer_err e s) = (case errChan s of None \<Rightarrow> Some e | Some x \<Rightarrow> Some x)"
  by (simp add: offer_err_def split: option.splits)

lemma send_step_errChan:
  "ws_err (send_step cd p s) = ws_err s"
  "errChan s = Some e \<Longrightarrow> errChan (send_step cd p s) = Some e"
  by (auto simp add: send_step_def send_return_errChan offer_err_errChan
      split: list.splits sum.splits prod.splits option.splits)

lemma recv_step_errChan:
  "ws_err (recv_step s) = ws_err s"
  "errChan s = Some e \<Longrightarrow> errChan (recv_step s) = Some e"
  by (auto simp add: recv_step_def recv_deferred_def dispatch_def offer_err_errChan
      split: recv_pc.splits list.splits inbound.splits option.splits)

lemma collect_step_err:
  "ws_err (fst sk) = Some e \<Longrightarrow> fst (collect_step p sk) = fst sk"
  "ws_err (fst sk) = None \<Longrightarrow> errChan (fst sk) = None \<Longrightarrow> ws_err (fst (collect_step p sk)) = None"
  "ws_err (fst sk) = None \<Longrightarrow> errChan (fst sk) = Some e \<Longrightarrow>
     holds_error e (fst (collect_step p sk))"
  by (auto simp add: collect_step_def ws_Next_def holds_error_def Let_def
      split: list.splits option.splits)

lemma holds_error_act:
  assumes "holds_error e (fst sk)"
  shows "holds_error e (fst (act cd a sk))"
proof (cases a)
  case (SendStep p)
  then show ?thesis using assms send_step_errChan[where s="fst sk" and cd=cd and p=p]
    by (auto simp add: holds_error_def)
next
  case RecvStep
  then show ?thesis using assms recv_step_errChan[where s="fst sk"]
    by (auto simp add: holds_error_def)
next
  case (CollectStep p)
  show ?thesis
  proof (cases "ws_err (fst sk)")
    case None
    with assms have "errChan (fst sk) = Some e" by (simp add: holds_error_def)
    then show ?thesis using CollectStep None collect_step_err(3)[of sk e p] by simp
  next
    case (Some x)
    then show ?thesis using CollectStep assms collect_step_err(1)[of sk x p] by simp
  qed
qed

lemma holds_error_run:
  "holds_error e (fst sk) \<Longrightarrow> holds_error e (fst (run cd sched sk))"
  by (induction sched arbitrary: sk) (simp_all add: holds_error_act)

lemma act_keeps_no_error:
  assumes "ws_err (fst sk) = None" and "errChan (fst sk) = None"
  shows "ws_err (fst (act cd a sk)) = None"
  using assms
  by (cases a) (simp_all add: send_step_errChan recv_step_errChan collect_step_err)

lemma observed_is_first_published:
  assumes "ws_err (fst sk) = None"
  shows "ws_err (fst (run cd sched sk)) = None
         \<or> ws_err (fst (run cd sched sk)) = first_published cd sched sk"
  using assms
proof (induction sched arbitrary: sk)
  case Nil
  then show ?case by simp
next
  case (Cons a as)
  show ?case
  proof (cases "errChan (fst sk)")
    case None
    have "ws_err (fst (act cd a sk)) = None" using Cons.prems None by (rule act_keeps_no_error)
    from Cons.IH[OF this] show ?thesis using None by simp
  next
    case (Some e)
    then have "holds_error e (fst sk)" using Cons.prems by (simp add: holds_error_def)
    then have "holds_error e (fst (run cd (a # as) sk))" by (rule holds_error_run)
    then show ?thesis using Some by (auto simp add: holds_error_def)
  qed
qed

lemma result_from_err_act:
  assumes "result_from_err sk"
  shows "result_from_err (act cd a sk)"
proof (cases a)
  case (SendStep p)
  then show ?thesis using assms
    by (auto simp add: result_from_err_def send_step_errChan split: option.splits prod.splits)
next
  case RecvStep
  then show ?thesis using assms
    by (auto simp add: result_from_err_def recv_step_errChan split: option.splits prod.splits)
next
  case (CollectStep p)
  then show ?thesis using assms
    by (auto simp add: result_from_err_def collect_step_def ws_Next_def Let_def
        split: list.splits option.splits)
qed

lemma result_from_err_run:
  "result_from_err sk \<Longrightarrow> result_from_err (run cd sched sk)"
  by (induction sched arbitrary: sk) (simp_all add: result_from_err_act)

text \<open>
  C10, as stated, fails: the slot is free again once the caller has taken the error
  out, and an error published after that is kept, not discarded. Here the receive path
  queues a read failure, \<open>Read\<close> returns it and records it, the send path then fails
  to write and its error is queued, and the next \<open>Read\<close> returns that second error
  and records it over the first.
\<close>

theorem C10_counterexample:
  "fst (ws_Read PickSecond 8 (recv_step reset_session))
     = Some ([], Some (OtherError ''connection reset''))
   \<and> ws_err after_first_read = Some (OtherError ''connection reset'')
   \<and> errChan after_first_read = None
   \<and> errChan after_send_fails
       = Some (Wrapf ''failed to send text'' (OtherError ''use of closed network connection''))
   \<and> fst (ws_Read PickSecond 8 after_send_fails)
       = Some ([], Some (Wrapf ''failed to send text'' (OtherError ''use of closed network connection'')))
   \<and> ws_err (snd (ws_Read PickSecond 8 after_send_fails))
       = Some (Wrapf ''failed to send text'' (OtherError ''use of closed network connection''))"
  by (simp add: after_send_fails_def after_first_read_def reset_session_def ws_Read_def duplex_eval)

text \<open>
  C10, amended. The queue is one slot: an error offered while it is occupied changes
  nothing, one offered while it is free is stored. Neither goroutine ever replaces or
  removes a queued error, and a goroutine that has an error to report goes on to its
  return whatever the slot holds. Under every schedule of the goroutines and
  \<open>Collect\<close>, the error \<open>Next\<close> has recorded, if any, is the first error that was
  queued, an error \<open>Collect\<close> returns is that first error, and \<open>Next\<close> does not
  touch the stream once an error is recorded.
\<close>

theorem C10_single_slot_first_error_wins:
  assumes "StreamWebSocket cd (Inr c) texts texts_closed = Inr s0"
  shows "(\<forall>t e e'. errChan t = Some e \<longrightarrow> offer_err e' t = t)
       \<and> (\<forall>t e'. errChan t = None \<longrightarrow> offer_err e' t = t\<lparr>errChan := Some e'\<rparr>)
       \<and> (\<forall>t e p. errChan t = Some e \<longrightarrow>
             errChan (send_step cd p t) = Some e \<and> errChan (recv_step t) = Some e)
       \<and> (\<forall>t e rest. recv_at t = Reading \<and> incoming (conn t) = ReadError e # rest
             \<and> \<not> IsCloseError e [CloseNormalClosure, CloseNoStatusReceived] \<longrightarrow>
             recv_at (recv_step t) = Returning \<and> errChan (recv_step t) = errChan (offer_err e t))
       \<and> (\<forall>t e rest. recv_at t = Reading \<and> incoming (conn t) = Undecodable e # rest \<longrightarrow>
             recv_at (recv_step t) = Returning
             \<and> errChan (recv_step t) = errChan (offer_err (Wrapf ''failed to decode response'' e) t))
       \<and> (\<forall>t r rest. recv_at t = Reading \<and> incoming (conn t) = Frame r # rest
             \<and> is_finish ''error'' (Frame r) \<longrightarrow>
             recv_at (recv_step t) = Returning
             \<and> errChan (recv_step t)
                 = errChan (offer_err (WebSocketError ''stream finished with error'') t))
       \<and> (\<forall>t p x ts e. \<not> send_exited t \<and> textChan t = x # ts
             \<and> (\<not> doneChan_closed t \<or> p = PickFirst) \<and> marshal_text cd x = Inl e \<longrightarrow>
             send_exited (send_step cd p t)
             \<and> errChan (send_step cd p t)
                 = errChan (offer_err (Wrapf ''failed to marshal text event'' e) t))
       \<and> (\<forall>t p x ts d e. \<not> send_exited t \<and> textChan t = x # ts
             \<and> (\<not> doneChan_closed t \<or> p = PickFirst) \<and> marshal_text cd x = Inr d
             \<and> fst (conn_WriteMessage d (conn t)) = Some e \<longrightarrow>
             send_exited (send_step cd p t)
             \<and> errChan (send_step cd p t) = errChan (offer_err (Wrapf ''failed to send text'' e) t))
       \<and> (\<forall>sched.
             (ws_err (fst (run cd sched (s0, new_collector))) = None
              \<or> ws_err (fst (run cd sched (s0, new_collector)))
                  = first_published cd sched (s0, new_collector))
             \<and> (\<forall>d e. result (snd (run cd sched (s0, new_collector))) = Some (d, Some e)
                   \<longrightarrow> first_published cd sched (s0, new_collector) = Some e))
       \<and> (\<forall>t e p. ws_err t = Some e \<longrightarrow> ws_Next p t = (Some False, t))"
proof (intro conjI allI impI)
  fix t :: session and e e' :: error
  assume "errChan t = Some e"
  then show "offer_err e' t = t" by (rule offer_err_occupied)
next
  fix t :: session and e' :: error
  assume "errChan t = None"
  then show "offer_err e' t = t\<lparr>errChan := Some e'\<rparr>" by (rule offer_err_free)
next
  fix t :: session and e :: error and p :: pick
  assume a: "errChan t = Some e"
  then show "errChan (send_step cd p t) = Some e" by (rule send_step_errChan(2))
  from a show "errChan (recv_step t) = Some e" by (rule recv_step_errChan(2))
next
  fix t :: session and e :: error and rest
  assume a: "recv_at t = Reading \<and> incoming (conn t) = ReadError e # rest
             \<and> \<not> IsCloseError e [CloseNormalClosure, CloseNoStatusReceived]"
  then show "recv_at (recv_step t) = Returning"
    "errChan (recv_step t) = errChan (offer_err e t)"
    by (simp_all add: recv_step_def offer_err_fields)
next
  fix t :: session and e :: error and rest
  assume a: "recv_at t = Reading \<and> incoming (conn t) = Undecodable e # rest"
  then show "recv_at (recv_step t) = Returning"
    "errChan (recv_step t) = errChan (offer_err (Wrapf ''failed to decode response'' e) t)"
    by (simp_all add: recv_step_def offer_err_fields)
next
  fix t :: session and r rest
  assume a: "recv_at t = Reading \<and> incoming (conn t) = Frame r # rest \<and> is_finish ''error'' (Frame r)"
  then show "recv_at (recv_step t) = Returning"
    "errChan (recv_step t) = errChan (offer_err (WebSocketError ''stream finished with error'') t)"
    by (simp_all add: recv_step_def dispatch_def offer_err_fields)
next
  fix t :: session and p x ts e
  assume a: "\<not> send_exited t \<and> textChan t = x # ts
             \<and> (\<not> doneChan_closed t \<or> p = PickFirst) \<and> marshal_text cd x = Inl e"
  then have st: "send_step cd p t
      = send_return cd (offer_err (Wrapf ''failed to marshal text event'' e) (t\<lparr>textChan := ts\<rparr>))"
    by (auto simp add: send_step_def)
  show "send_exited (send_step cd p t)" unfolding st by (rule send_return_exited)
  show "errChan (send_step cd p t) = errChan (offer_err (Wrapf ''failed to marshal text event'' e) t)"
    unfolding st by (simp add: send_return_errChan offer_err_fields)
next
  fix t :: session and p x ts d e
  assume a: "\<not> send_exited t \<and> textChan t = x # ts
             \<and> (\<not> doneChan_closed t \<or> p = PickFirst) \<and> marshal_text cd x = Inr d
             \<and> fst (conn_WriteMessage d (conn t)) = Some e"
  then have w: "conn_WriteMessage d (conn t) = (Some e, snd (conn_WriteMessage d (conn t)))"
    by (metis prod.collapse)
  have st: "send_step cd p t
      = send_return cd (offer_err (Wrapf ''failed to send text'' e)
          (t\<lparr>textChan := ts, conn := snd (conn_WriteMessage d (conn t))\<rparr>))"
    using a w by (auto simp add: send_step_def split: prod.splits)
  show "send_exited (send_step cd p t)" unfolding st by (rule send_return_exited)
  show "errChan (send_step cd p t) = errChan (offer_err (Wrapf ''failed to send text'' e) t)"
    unfolding st by (simp add: send_return_errChan offer_err_errChan)
next
  fix sched
  note s = StreamWebSocket_session[OF assms]
  have w: "ws_err (fst (s0, new_collector)) = None" using s by simp
  show "ws_err (fst (run cd sched (s0, new_collector))) = None
        \<or> ws_err (fst (run cd sched (s0, new_collector))) = first_published cd sched (s0, new_collector)"
    using w by (rule observed_is_first_published)
  fix d e
  assume r: "result (snd (run cd sched (s0, new_collector))) = Some (d, Some e)"
  have "result_from_err (s0, new_collector)" by (simp add: result_from_err_def new_collector_def)
  then have "result_from_err (run cd sched (s0, new_collector))" by (rule result_from_err_run)
  with r have "ws_err (fst (run cd sched (s0, new_collector))) = Some e"
    by (simp add: result_from_err_def)
  with observed_is_first_published[OF w, of cd sched]
  show "first_published cd sched (s0, new_collector) = Some e" by simp
next
  fix t :: session and e p
  assume "ws_err t = Some e"
  then show "ws_Next p t = (Some False, t)" by (simp add: ws_Next_def)
qed

theorem C10_witness:
  "StreamWebSocket demo_codec (Inr (dialled reset_frames)) [''Hello''] True
     = Inr (opened reset_frames [''Hello''])
   \<and> errChan (recv_step (opened reset_frames [''Hello''])) = Some (OtherError ''connection reset'')
   \<and> recv_at (recv_step (opened reset_frames [''Hello''])) = Returning
   \<and> offer_err (OtherError ''late'') (recv_step (opened reset_frames [''Hello'']))
       = recv_step (opened reset_frames [''Hello''])
   \<and> errChan (send_step broken_text_codec PickFirst (recv_step (opened reset_frames [''Hello''])))
       = Some (OtherError ''connection reset'')
   \<and> send_exited (send_step broken_text_codec PickFirst (recv_step (opened reset_frames [''Hello''])))
   \<and> first_published demo_codec [RecvStep, RecvStep, CollectStep PickSecond]
        (opened reset_frames [''Hello''], new_collector) = Some (OtherError ''connection reset'')
   \<and> result (snd (run demo_codec [RecvStep, RecvStep, CollectStep PickSecond]
        (opened reset_frames [''Hello''], new_collector)))
       = Some ([], Some (OtherError ''connection reset''))"
proof -
  let ?s0 = "opened reset_frames [''Hello'']"
  let ?e = "OtherError ''connection reset''"
  let ?sched = "[RecvStep, RecvStep, CollectStep PickSecond]"
  have o: "StreamWebSocket demo_codec (Inr (dialled reset_frames)) [''Hello''] True = Inr ?s0"
    by (rule opened_demo)
  have ob: "StreamWebSocket broken_text_codec (Inr (dialled reset_frames)) [''Hello''] True = Inr ?s0"
    by (simp add: StreamWebSocket_def broken_text_codec_def demo_codec_def dialled_def opened_def
        conn_WriteMessage_def)
  note t = C10_single_slot_first_error_wins[OF o]
  note tb = C10_single_slot_first_error_wins[OF ob]
  note t1 = t[THEN conjunct1, rule_format]
  note t2 = t[THEN conjunct2, THEN conjunct1, rule_format]
  note t4 = t[THEN conjunct2, THEN conjunct2, THEN conjunct2, THEN conjunct1, rule_format]
  note t9 = t[THEN conjunct2, THEN conjunct2, THEN conjunct2, THEN conjunct2, THEN conjunct2,
              THEN conjunct2, THEN conjunct2, THEN conjunct2, THEN conjunct1, rule_format]
  note tb3 = tb[THEN conjunct2, THEN conjunct2, THEN conjunct1, rule_format]
  note tb7 = tb[THEN conjunct2, THEN conjunct2, THEN conjunct2, THEN conjunct2, THEN conjunct2,
                THEN conjunct2, THEN conjunct1, rule_format]
  have h: "recv_at ?s0 = Reading \<and> incoming (conn ?s0) = ReadError ?e # []
             \<and> \<not> IsCloseError ?e [CloseNormalClosure, CloseNoStatusReceived]"
    and h4: "errChan ?s0 = None"
    by (simp_all add: opened_def reset_frames_def)
  from t4[OF h] have 1: "recv_at (recv_step ?s0) = Returning"
    "errChan (recv_step ?s0) = errChan (offer_err ?e ?s0)" by simp_all
  from t2[OF h4] have "offer_err ?e ?s0 = ?s0\<lparr>errChan := Some ?e\<rparr>" .
  with 1(2) have 2: "errChan (recv_step ?s0) = Some ?e" by simp
  from t1[OF 2] have 3: "offer_err (OtherError ''late'') (recv_step ?s0) = recv_step ?s0" .
  from tb3[OF 2] have 4: "errChan (send_step broken_text_codec PickFirst (recv_step ?s0)) = Some ?e"
    by simp
  have g: "\<not> send_exited (recv_step ?s0) \<and> textChan (recv_step ?s0) = ''Hello'' # []
    \<and> (\<not> doneChan_closed (recv_step ?s0) \<or> PickFirst = PickFirst)
    \<and> marshal_text broken_text_codec ''Hello'' = Inl (OtherError ''msgpack: encode failed'')"
    by (simp add: recv_step_send_side reset_frames_def opened_def broken_text_codec_def demo_codec_def)
  from tb7[OF g] have 5: "send_exited (send_step broken_text_codec PickFirst (recv_step ?s0))"
    by simp
  have 6: "result (snd (run demo_codec ?sched (?s0, new_collector))) = Some ([], Some ?e)"
    by (simp add: reset_frames_def duplex_eval)
  from t9[of ?sched] 6 have 7: "first_published demo_codec ?sched (?s0, new_collector) = Some ?e"
    by simp
  from o 1(1) 2 3 4 5 6 7 show ?thesis by simp
qed

section \<open>\<open>Convert\<close> against \<open>Stream\<close> and \<open>Collect\<close>\<close>

text \<open>
  C9. For parameter structs holding the same parameter set, and for nil on both sides,
  \<open>Convert\<close> returns what \<open>Stream\<close> followed by \<open>Collect\<close> returns: the same
  panic, the same error with no bytes, or the same bytes. When the exchange fails,
  that is its error; when it yields a response with a readable body, the bytes are the
  body's, or the error the body ends with.
\<close>

theorem C9_convert_is_stream_then_collect:
  "(same_params cp sp \<longrightarrow> Convert doRequest cp = Stream_then_Collect doRequest sp)
   \<and> (same_params (Some c) (Some s) \<and> doRequest (buildRequest s)
          (if getModel s \<noteq> '''' then Some \<lparr>Timeout = 0, AdditionalHeaders = [''model'' \<mapsto> getModel s],
                                            AdditionalQueryParams = Map.empty\<rparr> else None) = Inl e
        \<longrightarrow> Convert doRequest (Some c) = Inr ([], Some e))
   \<and> (same_params (Some c) (Some s) \<and> doRequest (buildRequest s)
          (if getModel s \<noteq> '''' then Some \<lparr>Timeout = 0, AdditionalHeaders = [''model'' \<mapsto> getModel s],
                                            AdditionalQueryParams = Map.empty\<rparr> else None)
          = Inr \<lparr>Body = Some b\<rparr> \<and> readable b
        \<longrightarrow> Convert doRequest (Some c)
              = Inr (if final b = EOF then (concat (segs b), None) else ([], Some (final b))))"
proof (intro conjI impI)
  assume "same_params cp sp"
  show "Convert doRequest cp = Stream_then_Collect doRequest sp"
  proof (cases cp)
    case None
    with \<open>same_params cp sp\<close> have "sp = None"
      by (cases sp) (simp_all add: same_params_def)
    with None show ?thesis by (simp add: Convert_def Stream_then_Collect_def Stream_def)
  next
    case (Some c)
    with \<open>same_params cp sp\<close> obtain s where s: "sp = Some s"
      by (cases sp) (simp_all add: same_params_def)
    with Some \<open>same_params cp sp\<close>
    have eq: "\<lparr>sp_Text = cp_Text c, sp_Model = cp_Model c,
                         sp_ReferenceID = cp_ReferenceID c, sp_References = cp_References c,
                         sp_Format = cp_Format c, sp_Latency = cp_Latency c,
                         sp_Speed = cp_Speed c, sp_Config = cp_Config c\<rparr> = s"
      by (simp add: same_params_def)
    show ?thesis unfolding Some s Convert_def Stream_then_Collect_def option.case eq ..
  qed
next
  assume a: "same_params (Some c) (Some s) \<and> doRequest (buildRequest s)
          (if getModel s \<noteq> '''' then Some \<lparr>Timeout = 0, AdditionalHeaders = [''model'' \<mapsto> getModel s],
                                            AdditionalQueryParams = Map.empty\<rparr> else None) = Inl e"
  then have eq: "\<lparr>sp_Text = cp_Text c, sp_Model = cp_Model c,
                         sp_ReferenceID = cp_ReferenceID c, sp_References = cp_References c,
                         sp_Format = cp_Format c, sp_Latency = cp_Latency c,
                         sp_Speed = cp_Speed c, sp_Config = cp_Config c\<rparr> = s"
    by (simp add: same_params_def)
  show "Convert doRequest (Some c) = Inr ([], Some e)"
    using a unfolding Convert_def eq option.case by (simp add: Stream_def Let_def)
next
  assume a: "same_params (Some c) (Some s) \<and> doRequest (buildRequest s)
          (if getModel s \<noteq> '''' then Some \<lparr>Timeout = 0, AdditionalHeaders = [''model'' \<mapsto> getModel s],
                                            AdditionalQueryParams = Map.empty\<rparr> else None)
          = Inr \<lparr>Body = Some b\<rparr> \<and> readable b"
  then have eq: "\<lparr>sp_Text = cp_Text c, sp_Model = cp_Model c,
                         sp_ReferenceID = cp_ReferenceID c, sp_References = cp_References c,
                         sp_Format = cp_Format c, sp_Latency = cp_Latency c,
                         sp_Speed = cp_Speed c, sp_Config = cp_Config c\<rparr> = s"
    by (simp add: same_params_def)
  have rb: "resp_Body (newAudioStream (Some \<lparr>Body = Some b\<rparr>)) = Inr b"
    by (simp add: resp_Body_def newAudioStream_def)
  from a have r: "readable b" by simp
  show "Convert doRequest (Some c)
              = Inr (if final b = EOF then (concat (segs b), None) else ([], Some (final b)))"
    using a as_Collect_result(1)[OF rb r] unfolding Convert_def eq option.case
    by (simp add: Stream_def Let_def)
qed

theorem C9_witness:
  "same_params (Some hello_params) (Some hello_stream_params)
   \<and> Convert audio_server (Some hello_params)
       = Stream_then_Collect audio_server (Some hello_stream_params)
   \<and> readable (declared_length_body ''audio:Hello'')
   \<and> Convert audio_server (Some hello_params) = Inr (''audio:Hello'', None)
   \<and> same_params (None :: int ConvertParams option) None
   \<and> Convert audio_server None = Stream_then_Collect audio_server None
   \<and> Stream_then_Collect audio_server None = Inl NilPointer
   \<and> same_params (Some (hello_params\<lparr>cp_Text := []\<rparr>)) (Some (hello_stream_params\<lparr>sp_Text := []\<rparr>))
   \<and> Convert audio_server (Some (hello_params\<lparr>cp_Text := []\<rparr>))
       = Inr ([], Some (OtherError ''422 Unprocessable Entity''))"
proof -
  let ?b = "declared_length_body ''audio:Hello''"
  let ?c' = "hello_params\<lparr>cp_Text := []\<rparr>"
  let ?s' = "hello_stream_params\<lparr>sp_Text := []\<rparr>"
  have sp: "same_params (Some hello_params) (Some hello_stream_params)"
    by (simp add: same_params_def hello_params_def hello_stream_params_def)
  have sn: "same_params (None :: int ConvertParams option) None" by (simp add: same_params_def)
  have se: "same_params (Some ?c') (Some ?s')"
    by (simp add: same_params_def hello_params_def hello_stream_params_def)
  have rd: "readable ?b" by (simp add: readable_def declared_length_body_def)
  have ok: "audio_server (buildRequest hello_stream_params)
          (if getModel hello_stream_params \<noteq> ''''
           then Some \<lparr>Timeout = 0, AdditionalHeaders = [''model'' \<mapsto> getModel hello_stream_params],
                      AdditionalQueryParams = Map.empty\<rparr> else None)
          = Inr \<lparr>Body = Some ?b\<rparr>"
    by (simp add: audio_server_def buildRequest_def hello_stream_params_def getModel_def)
  have bad: "audio_server (buildRequest ?s')
          (if getModel ?s' \<noteq> ''''
           then Some \<lparr>Timeout = 0, AdditionalHeaders = [''model'' \<mapsto> getModel ?s'],
                      AdditionalQueryParams = Map.empty\<rparr> else None)
          = Inl (OtherError ''422 Unprocessable Entity'')"
    by (simp add: audio_server_def buildRequest_def hello_stream_params_def getModel_def)
  note t1 = C9_convert_is_stream_then_collect
              [of "Some hello_params" "Some hello_stream_params" audio_server
                  hello_params hello_stream_params _ ?b, THEN conjunct1, rule_format, OF sp]
  note t3 = C9_convert_is_stream_then_collect
              [of _ _ audio_server hello_params hello_stream_params _ ?b,
               THEN conjunct2, THEN conjunct2, rule_format]
  note t2 = C9_convert_is_stream_then_collect
              [of _ _ audio_server ?c' ?s' "OtherError ''422 Unprocessable Entity''",
               THEN conjunct2, THEN conjunct1, rule_format]
  note tn = C9_convert_is_stream_then_collect
              [of None None audio_server, THEN conjunct1, rule_format, OF sn]
  have v: "Convert audio_server (Some hello_params) = Inr (''audio:Hello'', None)"
    using t3 sp ok rd by (simp add: declared_length_body_def)
  have f: "Convert audio_server (Some ?c') = Inr ([], Some (OtherError ''422 Unprocessable Entity''))"
    using t2 se bad by simp
  have n: "Stream_then_Collect audio_server None = Inl NilPointer"
    by (simp add: Stream_then_Collect_def Stream_def)
  from sp t1 rd v sn tn n se f show ?thesis by simp
qed

end
